theory Spec2Isabelle
  imports Main "HOL-Library.Word" "HOL-Library.Signed_Division" "HOL-Library.Multiset"
begin

section \<open>Go values\<close>

text \<open>
  Go's \<open>int\<close> is modelled on a 64-bit platform: a 64-bit word read in two's complement.
  \<open>+\<close>, \<open>-\<close> and \<open>*\<close> wrap around as Go's do; comparisons are the signed ones
  (\<open><s\<close>, \<open>\<le>s\<close>); division truncates towards zero.  A \<open>*int\<close> parameter is an
  \<open>option\<close> (\<open>None\<close> for \<open>nil\<close>).  A byte slice is a list of bytes.
\<close>

type_synonym go_int = "64 word"
type_synonym int64 = "64 word"
type_synonym uint32 = "32 word"
type_synonym bytes = "8 word list"

definition int_quo :: "go_int \<Rightarrow> go_int \<Rightarrow> go_int" where
  "int_quo a b = word_of_int (sint a sdiv sint b)"

text \<open>\<open>len\<close> of a slice, as a Go \<open>int\<close>.\<close>

definition len :: "'a list \<Rightarrow> go_int" where
  "len xs = of_nat (length xs)"

text \<open>\<open>tmmath.MinInt\<close> of the Tendermint library.\<close>

definition MinInt :: "go_int \<Rightarrow> go_int \<Rightarrow> go_int" where
  "MinInt a b = (if a <s b then a else b)"

section \<open>Errors and panics of the client\<close>

text \<open>
  An error of a collaborator (query parser, indexer, event bus, mempool, gossip layer) is
  carried as its message.  The client's own errors are one constructor for each
  \<open>errors.New\<close> or \<open>fmt.Errorf\<close> of the source, with the formatted arguments.
\<close>

datatype error =
    External string
  | ErrPageRange go_int go_int
  | ErrOrderBy
  | ErrMaxSubscriptionClients go_int
  | ErrMaxSubscriptionsPerClient go_int
  | ErrSubscribeToTx error
  | ErrBroadcastTxCommit error
  | ErrFailureToBroadcast error
  | ErrFailedToGossip error
  | ErrValidTra error
  | ErrParseQuery error
  | ErrFailedToSubscribe error
  | ErrCancelled string
  | ErrTimedOut

datatype panic =
    PanicPerPage go_int
  | PanicNilFunc
  | PanicIndexOutOfRange go_int
  | PanicMakeSlice go_int
  | PanicMakeChan go_int

section \<open>Pagination\<close>

definition defaultPerPage :: go_int where
  "defaultPerPage = 30"

definition maxPerPage :: go_int where
  "maxPerPage = 100"

definition validatePerPage :: "go_int option \<Rightarrow> go_int" where
  "validatePerPage perPagePtr =
     (case perPagePtr of
        None \<Rightarrow> defaultPerPage
      | Some perPage \<Rightarrow>
          if perPage <s 1 then defaultPerPage
          else if maxPerPage <s perPage then maxPerPage
          else perPage)"

text \<open>
  The number of pages that \<open>validatePage\<close> computes in its local variable \<open>pages\<close>
  (and prints in its error message).
\<close>

definition totalPages :: "go_int \<Rightarrow> go_int \<Rightarrow> go_int" where
  "totalPages perPage totalCount =
     (let pages = int_quo (totalCount - 1) perPage + 1
      in if pages = 0 then 1 else pages)"

text \<open>
  \<open>validatePage\<close> returns the pair \<open>(int, error)\<close> of the source, or panics on a
  per-page value below 1.
\<close>

definition validatePage :: "go_int option \<Rightarrow> go_int \<Rightarrow> go_int \<Rightarrow> panic + (go_int \<times> error option)" where
  "validatePage pagePtr perPage totalCount =
     (if perPage <s 1 then Inl (PanicPerPage perPage)
      else case pagePtr of
        None \<Rightarrow> Inr (1, None)
      | Some page \<Rightarrow>
          let pages = totalPages perPage totalCount
          in if page \<le>s 0 \<or> pages <s page
             then Inr (1, Some (ErrPageRange pages page))
             else Inr (page, None))"

definition validateSkipCount :: "go_int \<Rightarrow> go_int \<Rightarrow> go_int" where
  "validateSkipCount page perPage =
     (let skipCount = (page - 1) * perPage
      in if skipCount <s 0 then 0 else skipCount)"

section \<open>Transaction search\<close>

text \<open>
  The search hits are the indexer's \<open>abci.TxResult\<close> values; the page handed back holds
  \<open>ctypes.ResultTx\<close> values.  Heights are \<open>int64\<close> (signed comparison), in-block
  indices are \<open>uint32\<close> (unsigned comparison).
\<close>

record ResponseDeliverTx =
  dtx_Code :: uint32
  dtx_Data :: bytes
  dtx_Log :: string
  dtx_Info :: string
  dtx_GasWanted :: int64
  dtx_GasUsed :: int64
  dtx_Codespace :: string

record TxResult =
  Height :: int64
  Index :: uint32
  Tx :: bytes
  Result :: ResponseDeliverTx

record MerkleProof =
  Total :: int64
  LeafIndex :: int64
  LeafHash :: bytes
  Aunts :: "bytes list"

record TxProof =
  RootHash :: bytes
  Data :: bytes
  Proof :: MerkleProof

text \<open>The zero value of \<open>types.TxProof\<close>: what \<open>var proof types.TxProof\<close> declares.\<close>

definition zero_TxProof :: TxProof where
  "zero_TxProof =
     \<lparr>RootHash = [], Data = [],
      Proof = \<lparr>Total = 0, LeafIndex = 0, LeafHash = [], Aunts = []\<rparr>\<rparr>"

record ResultTx =
  rtx_Hash :: bytes
  rtx_Height :: int64
  rtx_Index :: uint32
  rtx_TxResult :: ResponseDeliverTx
  rtx_Tx :: bytes
  rtx_Proof :: TxProof

record ResultTxSearch =
  Txs :: "ResultTx list"
  TotalCount :: go_int

text \<open>
  The collaborators \<open>TxSearch\<close> calls: the query parser \<open>tmquery.New\<close>, the indexer's
  \<open>Search\<close>, and the content hash \<open>Tx.Hash\<close>.  Their code is outside the client, so
  they are parameters.  \<open>Sort_arrange\<close> is the part of \<open>sort.Slice\<close> that Go's library
  leaves open: the order in which it leaves elements that compare equal (see
  \<open>sort_Slice\<close> below).
\<close>

record 'q search_deps =
  tmquery_New :: "string \<Rightarrow> error + 'q"
  TxIndexer_Search :: "'q \<Rightarrow> error + TxResult list"
  Tx_Hash :: "bytes \<Rightarrow> bytes"
  Sort_arrange :: "(TxResult \<Rightarrow> TxResult \<Rightarrow> bool) \<Rightarrow> TxResult list \<Rightarrow> TxResult list"

text \<open>The two comparison closures handed to \<open>sort.Slice\<close>.\<close>

definition less_desc :: "TxResult \<Rightarrow> TxResult \<Rightarrow> bool" where
  "less_desc a b =
     (if Height a = Height b then Index b < Index a else Height b <s Height a)"

definition less_asc :: "TxResult \<Rightarrow> TxResult \<Rightarrow> bool" where
  "less_asc a b =
     (if Height a = Height b then Index a < Index b else Height a <s Height b)"

text \<open>
  \<open>sort.Slice\<close> of Go's standard library sorts the slice in place by the given
  \<open>less\<close>.  It is not stable: it promises a sorted permutation, and no order among
  elements that compare equal.  The model sorts, by insertion, a rearrangement of the
  slice.  The rearrangement \<open>arrange\<close> is a parameter, which may depend on the comparison
  and on the slice; one that does not return a permutation of the slice is not used.  For
  every \<open>arrange\<close> the result is a sorted permutation, and every sorted permutation is the
  result for some \<open>arrange\<close>, so a statement about \<open>sort_Slice arrange\<close> for an
  arbitrary \<open>arrange\<close> covers whatever order the library leaves equal elements in.
\<close>

fun insert_by :: "('a \<Rightarrow> 'a \<Rightarrow> bool) \<Rightarrow> 'a \<Rightarrow> 'a list \<Rightarrow> 'a list" where
  "insert_by lt x [] = [x]"
| "insert_by lt x (y # ys) =
     (if lt y x then y # insert_by lt x ys else x # y # ys)"

definition rearranged :: "('a list \<Rightarrow> 'a list) \<Rightarrow> 'a list \<Rightarrow> 'a list" where
  "rearranged arrange xs = (if mset (arrange xs) = mset xs then arrange xs else xs)"

definition sort_Slice ::
  "(('a \<Rightarrow> 'a \<Rightarrow> bool) \<Rightarrow> 'a list \<Rightarrow> 'a list) \<Rightarrow> ('a \<Rightarrow> 'a \<Rightarrow> bool) \<Rightarrow> 'a list \<Rightarrow> 'a list"
where
  "sort_Slice arrange lt xs = foldr (insert_by lt) (rearranged (arrange lt) xs) []"

text \<open>The \<open>switch orderBy\<close> of \<open>TxSearch\<close>: \<open>None\<close> is its \<open>default\<close> branch.\<close>

definition orderResults ::
  "((TxResult \<Rightarrow> TxResult \<Rightarrow> bool) \<Rightarrow> TxResult list \<Rightarrow> TxResult list)
     \<Rightarrow> string \<Rightarrow> TxResult list \<Rightarrow> TxResult list option"
where
  "orderResults arrange orderBy results =
     (if orderBy = ''desc'' then Some (sort_Slice arrange less_desc results)
      else if orderBy = ''asc'' \<or> orderBy = '''' then Some (sort_Slice arrange less_asc results)
      else None)"

text \<open>
  The body of the loop that fills \<open>apiResults\<close>.  The proof is the zero value: the code
  that would compute it under \<open>prove\<close> is commented out in the source.
\<close>

definition toResultTx :: "(bytes \<Rightarrow> bytes) \<Rightarrow> TxResult \<Rightarrow> ResultTx" where
  "toResultTx hash r =
     (let proof = zero_TxProof
      in \<lparr>rtx_Hash = hash (Tx r), rtx_Height = Height r, rtx_Index = Index r,
          rtx_TxResult = Result r, rtx_Tx = Tx r, rtx_Proof = proof\<rparr>)"

text \<open>
  \<open>for i := skipCount; i < skipCount+pageSize; i++\<close>, with the bounds check of
  \<open>results[i]\<close> (Go compares the index as an unsigned number with the length).
\<close>

function TxSearch_loop ::
  "(bytes \<Rightarrow> bytes) \<Rightarrow> TxResult list \<Rightarrow> go_int \<Rightarrow> go_int \<Rightarrow> ResultTx list \<Rightarrow> panic + ResultTx list"
where
  "TxSearch_loop hash results i stop apiResults =
     (if i <s stop
      then (if unat i < length results
            then TxSearch_loop hash results (i + 1) stop
                   (apiResults @ [toResultTx hash (results ! unat i)])
            else Inl (PanicIndexOutOfRange i))
      else Inr apiResults)"
  by pat_completeness auto
termination
proof (relation "measure (\<lambda>(hash, results, i, stop, apiResults). nat (sint stop - sint i))")
  show "wf (measure (\<lambda>(hash, results, i, stop, apiResults). nat (sint stop - sint i)))"
    by simp
next
  fix hash :: "bytes \<Rightarrow> bytes" and results :: "TxResult list"
    and i stop :: go_int and apiResults :: "ResultTx list"
  assume lt: "i <s stop"
  have a: "sint i < sint stop" using lt by (simp add: word_sless_alt)
  have b: "sint stop < 2 ^ 63" using sint_lt [of stop] by simp
  have c: "- (2 ^ 63) \<le> sint i" using sint_ge [of i] by simp
  have "sint (i + 1) = signed_take_bit 63 (sint i + 1)"
    by (simp add: sint_word_ariths)
  also have "\<dots> = sint i + 1"
    using a b c by (intro signed_take_bit_int_eq_self) auto
  finally have "sint (i + 1) = sint i + 1" .
  then show "((hash, results, i + 1, stop, apiResults @ [toResultTx hash (results ! unat i)]),
              (hash, results, i, stop, apiResults))
             \<in> measure (\<lambda>(hash, results, i, stop, apiResults). nat (sint stop - sint i))"
    using a by simp
qed

declare TxSearch_loop.simps [simp del]

text \<open>
  \<open>TxSearch\<close> returns the pair \<open>(*ResultTxSearch, error)\<close> of the source, or panics.
  \<open>make\<close> panics on a negative capacity.  The flag \<open>prove\<close> is read nowhere.
\<close>

definition TxSearch ::
  "'q search_deps \<Rightarrow> string \<Rightarrow> bool \<Rightarrow> go_int option \<Rightarrow> go_int option \<Rightarrow> string
     \<Rightarrow> panic + (ResultTxSearch option \<times> error option)"
where
  "TxSearch node query prove pagePtr perPagePtr orderBy =
     (case tmquery_New node query of
        Inl err \<Rightarrow> Inr (None, Some err)
      | Inr q \<Rightarrow>
     (case TxIndexer_Search node q of
        Inl err \<Rightarrow> Inr (None, Some err)
      | Inr found \<Rightarrow>
     (case orderResults (Sort_arrange node) orderBy found of
        None \<Rightarrow> Inr (None, Some ErrOrderBy)
      | Some results \<Rightarrow>
          let totalCount = len results;
              perPage = validatePerPage perPagePtr
          in (case validatePage pagePtr perPage totalCount of
                Inl p \<Rightarrow> Inl p
              | Inr (page, Some err) \<Rightarrow> Inr (None, Some err)
              | Inr (page, None) \<Rightarrow>
                  let skipCount = validateSkipCount page perPage;
                      pageSize = MinInt perPage (totalCount - skipCount)
                  in if pageSize <s 0 then Inl (PanicMakeSlice pageSize)
                     else (case TxSearch_loop (Tx_Hash node) results skipCount
                                  (skipCount + pageSize) [] of
                             Inl p \<Rightarrow> Inl p
                           | Inr apiResults \<Rightarrow>
                               Inr (Some \<lparr>Txs = apiResults, TotalCount = totalCount\<rparr>, None))))))"

text \<open>
  Concrete inputs for evaluating \<open>TxSearch\<close>: a hit at a height and an in-block index,
  and collaborators that accept every query and answer it with the given hits.
  \<open>arranged_search\<close> takes the rearrangement of the library's sort; \<open>fixed_search\<close>
  is the case where the sort leaves equal elements in the order it found them.
\<close>

definition zero_ResponseDeliverTx :: ResponseDeliverTx where
  "zero_ResponseDeliverTx =
     \<lparr>dtx_Code = 0, dtx_Data = [], dtx_Log = [], dtx_Info = [],
      dtx_GasWanted = 0, dtx_GasUsed = 0, dtx_Codespace = []\<rparr>"

definition hit :: "int64 \<Rightarrow> uint32 \<Rightarrow> TxResult" where
  "hit h i = \<lparr>Height = h, Index = i, Tx = [], Result = zero_ResponseDeliverTx\<rparr>"

definition arranged_search ::
  "((TxResult \<Rightarrow> TxResult \<Rightarrow> bool) \<Rightarrow> TxResult list \<Rightarrow> TxResult list)
     \<Rightarrow> TxResult list \<Rightarrow> string search_deps"
where
  "arranged_search arrange hits =
     \<lparr>tmquery_New = Inr, TxIndexer_Search = (\<lambda>q. Inr hits), Tx_Hash = (\<lambda>tx. tx),
      Sort_arrange = arrange\<rparr>"

definition fixed_search :: "TxResult list \<Rightarrow> string search_deps" where
  "fixed_search hits = arranged_search (\<lambda>lt xs. xs) hits"

text \<open>
  The order the specification asks for, on the indexer's hits and on the hits of a page:
  height first, and the in-block index where the heights are equal.  A list is ascending
  when \<open>sorted_wrt\<close> holds for this relation, and descending when it holds for the
  converse.
\<close>

definition hit_le :: "TxResult \<Rightarrow> TxResult \<Rightarrow> bool" where
  "hit_le a b = (Height a <s Height b \<or> (Height a = Height b \<and> Index a \<le> Index b))"

definition by_height_index :: "ResultTx \<Rightarrow> ResultTx \<Rightarrow> bool" where
  "by_height_index a b =
     (rtx_Height a <s rtx_Height b \<or> (rtx_Height a = rtx_Height b \<and> rtx_Index a \<le> rtx_Index b))"

text \<open>
  The window of a list that an accepted page request selects: the elements from
  \<open>skipCount\<close> up to \<open>skipCount + pageSize\<close>, with the values \<open>TxSearch\<close> computes.
\<close>

definition page_slice :: "go_int option \<Rightarrow> go_int option \<Rightarrow> 'a list \<Rightarrow> 'a list" where
  "page_slice pagePtr perPagePtr xs =
     (let page = (case pagePtr of None \<Rightarrow> 1 | Some g \<Rightarrow> g);
          perPage = validatePerPage perPagePtr;
          skipCount = validateSkipCount page perPage;
          pageSize = MinInt perPage (len xs - skipCount)
      in take (nat (sint pageSize)) (drop (nat (sint skipCount)) xs))"

section \<open>The registry of data availability clients\<close>

text \<open>
  The two registered backends.  A factory returns a pointer to a fresh zero value of the
  backend's struct; the value is modelled by the name of its type.
\<close>

datatype DataAvailabilityLayerClient =
    MockDataAvailabilityLayerClient
  | GrpcDataAvailabilityLayerClient

definition clients :: "string \<rightharpoonup> (unit \<Rightarrow> DataAvailabilityLayerClient)" where
  "clients = [''mock'' \<mapsto> (\<lambda>_. MockDataAvailabilityLayerClient),
              ''grpc'' \<mapsto> (\<lambda>_. GrpcDataAvailabilityLayerClient)]"

text \<open>
  \<open>clients[name]()\<close>: indexing a Go map with a key it does not hold gives the zero
  value, here the nil function, and calling the nil function panics.
\<close>

definition GetClient :: "string \<Rightarrow> panic + DataAvailabilityLayerClient" where
  "GetClient name =
     (case clients name of
        None \<Rightarrow> Inl PanicNilFunc
      | Some factory \<Rightarrow> Inr (factory ()))"

section \<open>Resubscription with backoff\<close>

text \<open>
  A \<open>time.Duration\<close> is an \<open>int64\<close> count of nanoseconds.  In
  \<open>(10 << uint(attempts)) * time.Millisecond\<close> the constant 10 takes the type
  \<open>time.Duration\<close>, so the shift and the product are 64-bit operations.
\<close>

definition Millisecond :: int64 where
  "Millisecond = 1000000"

definition backoff :: "go_int \<Rightarrow> int64" where
  "backoff attempts = push_bit (unat attempts) 10 * Millisecond"

text \<open>
  The loop of \<open>resubscribe\<close> may run forever.  Its environment is a script: for each
  iteration, the answer of \<open>IsRunning\<close> and the answer of \<open>EventBus.Subscribe\<close>.  The
  result is the subscription returned (\<open>None\<close> for \<open>nil\<close>) with the durations slept, in
  order; it is \<open>None\<close> when the script ends while the loop is still running.
\<close>

fun resubscribe_loop ::
  "go_int \<Rightarrow> (bool \<times> (error + 's)) list \<Rightarrow> int64 list \<Rightarrow> ('s option \<times> int64 list) option"
where
  "resubscribe_loop attempts [] slept = None"
| "resubscribe_loop attempts ((running, answer) # script) slept =
     (if \<not> running then Some (None, slept)
      else (case answer of
              Inr sub \<Rightarrow> Some (Some sub, slept)
            | Inl err \<Rightarrow>
                let attempts' = attempts + 1
                in resubscribe_loop attempts' script (slept @ [backoff attempts'])))"

definition resubscribe :: "(bool \<times> (error + 's)) list \<Rightarrow> ('s option \<times> int64 list) option" where
  "resubscribe script = resubscribe_loop 0 script []"

section \<open>Broadcasting transactions and subscribing\<close>

record ResponseCheckTx =
  chk_Code :: uint32
  chk_Data :: bytes
  chk_Log :: string
  chk_Info :: string
  chk_GasWanted :: int64
  chk_GasUsed :: int64
  chk_Codespace :: string

definition CodeTypeOK :: uint32 where
  "CodeTypeOK = 0"

record ResultBroadcastTxCommit =
  btc_CheckTx :: ResponseCheckTx
  btc_DeliverTx :: ResponseDeliverTx
  btc_Hash :: bytes
  btc_Height :: int64

record ResultBroadcastTx =
  bt_Code :: uint32
  bt_Data :: bytes
  bt_Log :: string
  bt_Codespace :: string
  bt_Hash :: bytes

text \<open>
  The calls the client makes on its collaborators (event bus, mempool, gossip layer,
  logger) and the goroutine it starts, in the order it makes them.  \<open>EventBus_Subscribe\<close>
  carries the variadic capacity argument as a list.
\<close>

datatype ('q, 'k) call =
    EventBus_Subscribe string 'q "go_int list"
  | EventBus_SubscribeUnbuffered string 'q
  | EventBus_Unsubscribe string 'q
  | Mempool_CheckTx bytes
  | Mempool_RemoveTxByKey 'k bool
  | P2P_GossipTx bytes
  | Logger_Error error
  | Go_eventsRoutine string 'q

text \<open>
  How the wait of \<open>BroadcastTxCommit\<close> ends: the \<open>select\<close> receives the event of the
  transaction, or the cancellation of the subscription (with the text of the
  subscription's \<open>Err()\<close>, \<open>None\<close> for \<open>nil\<close>), or the timeout.
\<close>

datatype wait_outcome =
    Delivered TxResult
  | SubCancelled "string option"
  | TimedOut

text \<open>
  The pure functions of the collaborators: the query matching a transaction, the
  mempool's key of a transaction, the hash of a transaction, and the query parser.
\<close>

record ('q, 'k) node =
  EventQueryTxFor :: "bytes \<Rightarrow> 'q"
  TxKey :: "bytes \<Rightarrow> 'k"
  TxHash :: "bytes \<Rightarrow> bytes"
  ParseQuery :: "string \<Rightarrow> error + 'q"

text \<open>
  What the collaborators answer during one call: the event bus's counters, the limits of
  the RPC configuration, and the answers of \<open>EventBus.Subscribe\<close>,
  \<open>EventBus.Unsubscribe\<close>, \<open>Mempool.CheckTx\<close> (an error, or the response handed to the
  callback) and \<open>P2P.GossipTx\<close>, and the way the wait ends.
\<close>

record env =
  NumClients :: go_int
  NumClientSubscriptions :: "string \<Rightarrow> go_int"
  MaxSubscriptionClients :: go_int
  MaxSubscriptionsPerClient :: go_int
  Subscribe_err :: "error option"
  Unsubscribe_err :: "error option"
  CheckTx_res :: "error + ResponseCheckTx"
  GossipTx_err :: "error option"
  wait :: wait_outcome

text \<open>The deferred \<open>Unsubscribe\<close> of \<open>BroadcastTxCommit\<close>, with the log of its failure.\<close>

definition deferred_Unsubscribe :: "env \<Rightarrow> string \<Rightarrow> 'q \<Rightarrow> ('q, 'k) call list" where
  "deferred_Unsubscribe env subscriber q =
     (case Unsubscribe_err env of
        None \<Rightarrow> [EventBus_Unsubscribe subscriber q]
      | Some err \<Rightarrow> [EventBus_Unsubscribe subscriber q, Logger_Error err])"

text \<open>
  \<open>BroadcastTxCommit\<close> from the call of \<open>Mempool.CheckTx\<close> on, that is, the part that
  runs with the subscription established: the pair returned and the calls made.
\<close>

definition BroadcastTxCommit_subscribed ::
  "('q, 'k) node \<Rightarrow> env \<Rightarrow> bytes
     \<Rightarrow> (ResultBroadcastTxCommit option \<times> error option) \<times> ('q, 'k) call list"
where
  "BroadcastTxCommit_subscribed node env tx =
     (case CheckTx_res env of
        Inl err \<Rightarrow>
          ((None, Some (ErrBroadcastTxCommit err)), [Mempool_CheckTx tx, Logger_Error err])
      | Inr checkTxRes \<Rightarrow>
          if chk_Code checkTxRes \<noteq> CodeTypeOK
          then ((Some \<lparr>btc_CheckTx = checkTxRes, btc_DeliverTx = zero_ResponseDeliverTx,
                        btc_Hash = TxHash node tx, btc_Height = 0\<rparr>, None),
                [Mempool_CheckTx tx])
          else (case GossipTx_err env of
                  Some err \<Rightarrow>
                    ((None, Some (ErrFailureToBroadcast err)),
                     [Mempool_CheckTx tx, P2P_GossipTx tx])
                | None \<Rightarrow>
                    (case wait env of
                       Delivered deliverTxRes \<Rightarrow>
                         ((Some \<lparr>btc_CheckTx = checkTxRes, btc_DeliverTx = Result deliverTxRes,
                                  btc_Hash = TxHash node tx, btc_Height = Height deliverTxRes\<rparr>,
                           None),
                          [Mempool_CheckTx tx, P2P_GossipTx tx])
                     | SubCancelled sub_Err \<Rightarrow>
                         let reason = (case sub_Err of
                                         None \<Rightarrow> ''Tendermint exited''
                                       | Some text \<Rightarrow> text)
                         in ((Some \<lparr>btc_CheckTx = checkTxRes,
                                      btc_DeliverTx = zero_ResponseDeliverTx,
                                      btc_Hash = TxHash node tx, btc_Height = 0\<rparr>,
                              Some (ErrCancelled reason)),
                             [Mempool_CheckTx tx, P2P_GossipTx tx,
                              Logger_Error (ErrCancelled reason)])
                     | TimedOut \<Rightarrow>
                         ((Some \<lparr>btc_CheckTx = checkTxRes, btc_DeliverTx = zero_ResponseDeliverTx,
                                  btc_Hash = TxHash node tx, btc_Height = 0\<rparr>,
                           Some ErrTimedOut),
                          [Mempool_CheckTx tx, P2P_GossipTx tx, Logger_Error ErrTimedOut]))))"

definition BroadcastTxCommit ::
  "('q, 'k) node \<Rightarrow> env \<Rightarrow> bytes
     \<Rightarrow> (ResultBroadcastTxCommit option \<times> error option) \<times> ('q, 'k) call list"
where
  "BroadcastTxCommit node env tx =
     (let subscriber = ''''
      in if MaxSubscriptionClients env \<le>s NumClients env
         then ((None, Some (ErrMaxSubscriptionClients (MaxSubscriptionClients env))), [])
         else if MaxSubscriptionsPerClient env \<le>s NumClientSubscriptions env subscriber
         then ((None, Some (ErrMaxSubscriptionsPerClient (MaxSubscriptionsPerClient env))), [])
         else
           let q = EventQueryTxFor node tx
           in (case Subscribe_err env of
                 Some err \<Rightarrow>
                   ((None, Some (ErrSubscribeToTx err)),
                    [EventBus_Subscribe subscriber q [], Logger_Error (ErrSubscribeToTx err)])
               | None \<Rightarrow>
                   (case BroadcastTxCommit_subscribed node env tx of
                      (returned, calls) \<Rightarrow>
                        (returned,
                         [EventBus_Subscribe subscriber q []] @ calls
                           @ deferred_Unsubscribe env subscriber q))))"

definition BroadcastTxAsync ::
  "('q, 'k) node \<Rightarrow> env \<Rightarrow> bytes
     \<Rightarrow> (ResultBroadcastTx option \<times> error option) \<times> ('q, 'k) call list"
where
  "BroadcastTxAsync node env tx =
     (case CheckTx_res env of
        Inl err \<Rightarrow> ((None, Some err), [Mempool_CheckTx tx])
      | Inr _ \<Rightarrow>
          (case GossipTx_err env of
             Some err \<Rightarrow>
               ((None, Some (ErrFailedToGossip err)), [Mempool_CheckTx tx, P2P_GossipTx tx])
           | None \<Rightarrow>
               ((Some \<lparr>bt_Code = 0, bt_Data = [], bt_Log = [], bt_Codespace = [],
                        bt_Hash = TxHash node tx\<rparr>, None),
                [Mempool_CheckTx tx, P2P_GossipTx tx])))"

text \<open>The result that \<open>BroadcastTxSync\<close> builds from the response of \<open>CheckTx\<close>.\<close>

definition toResultBroadcastTx :: "('q, 'k) node \<Rightarrow> bytes \<Rightarrow> ResponseCheckTx \<Rightarrow> ResultBroadcastTx" where
  "toResultBroadcastTx node tx r =
     \<lparr>bt_Code = chk_Code r, bt_Data = chk_Data r, bt_Log = chk_Log r,
      bt_Codespace = chk_Codespace r, bt_Hash = TxHash node tx\<rparr>"

definition BroadcastTxSync ::
  "('q, 'k) node \<Rightarrow> env \<Rightarrow> bytes
     \<Rightarrow> (ResultBroadcastTx option \<times> error option) \<times> ('q, 'k) call list"
where
  "BroadcastTxSync node env tx =
     (case CheckTx_res env of
        Inl err \<Rightarrow> ((None, Some err), [Mempool_CheckTx tx])
      | Inr r \<Rightarrow>
          if chk_Code r = CodeTypeOK
          then (case GossipTx_err env of
                  Some err \<Rightarrow>
                    ((None, Some (ErrValidTra err)),
                     [Mempool_CheckTx tx, P2P_GossipTx tx,
                      Mempool_RemoveTxByKey (TxKey node tx) True])
                | None \<Rightarrow>
                    ((Some (toResultBroadcastTx node tx r), None),
                     [Mempool_CheckTx tx, P2P_GossipTx tx]))
          else ((Some (toResultBroadcastTx node tx r), None), [Mempool_CheckTx tx]))"

text \<open>
  \<open>Subscribe\<close> of the client.  The channel it returns is modelled by its capacity;
  \<open>make\<close> panics on a negative capacity.  The outcome is a panic or the pair returned,
  together with the calls made.
\<close>

datatype chan = Chan go_int

definition Subscribe ::
  "('q, 'k) node \<Rightarrow> env \<Rightarrow> string \<Rightarrow> string \<Rightarrow> go_int list
     \<Rightarrow> (panic + (chan option \<times> error option)) \<times> ('q, 'k) call list"
where
  "Subscribe node env subscriber query outCapacity =
     (case ParseQuery node query of
        Inl err \<Rightarrow> (Inr (None, Some (ErrParseQuery err)), [])
      | Inr q \<Rightarrow>
          let outCap = (case outCapacity of [] \<Rightarrow> 1 | c # _ \<Rightarrow> c);
              subscribe = (if 0 <s outCap
                           then EventBus_Subscribe subscriber q [outCap]
                           else EventBus_SubscribeUnbuffered subscriber q)
          in (case Subscribe_err env of
                Some err \<Rightarrow> (Inr (None, Some (ErrFailedToSubscribe err)), [subscribe])
              | None \<Rightarrow>
                  if outCap <s 0 then (Inl (PanicMakeChan outCap), [subscribe])
                  else (Inr (Some (Chan outCap), None),
                        [subscribe, Go_eventsRoutine subscriber q])))"

text \<open>Concrete collaborators for evaluating the broadcast functions and \<open>Subscribe\<close>.\<close>

datatype query = EventQueryTx bytes | Parsed string

text \<open>
  The text of \<open>types.EventQueryNewBlock\<close>, \<^verbatim>\<open>tm.event='NewBlock'\<close>, a query that
  \<open>tmquery.New\<close> parses.  The parser of \<open>plain_node\<close> stands for \<open>tmquery.New\<close> on
  this one text: it accepts it and refuses every other text.
\<close>

definition EventQueryNewBlock :: string where
  "EventQueryNewBlock = ''tm.event='' @ [CHR 0x27] @ ''NewBlock'' @ [CHR 0x27]"

definition plain_node :: "(query, bytes) node" where
  "plain_node =
     \<lparr>EventQueryTxFor = EventQueryTx, TxKey = (\<lambda>tx. tx), TxHash = (\<lambda>tx. tx),
      ParseQuery = (\<lambda>text. if text = EventQueryNewBlock then Inr (Parsed text)
                            else Inl (External ''query does not parse''))\<rparr>"

definition response :: "uint32 \<Rightarrow> ResponseCheckTx" where
  "response code =
     \<lparr>chk_Code = code, chk_Data = [], chk_Log = [], chk_Info = [],
      chk_GasWanted = 0, chk_GasUsed = 0, chk_Codespace = []\<rparr>"

definition quiet_env :: env where
  "quiet_env =
     \<lparr>NumClients = 0, NumClientSubscriptions = (\<lambda>_. 0),
      MaxSubscriptionClients = 100, MaxSubscriptionsPerClient = 5,
      Subscribe_err = None, Unsubscribe_err = None,
      CheckTx_res = Inr (response 0), GossipTx_err = None, wait = TimedOut\<rparr>"

section \<open>Arithmetic of Go integers without wrap-around\<close>

lemma sint_in_range:
  fixes k :: int
  assumes "- (2 ^ 63) \<le> k" "k < 2 ^ 63"
  shows "signed_take_bit 63 k = k"
  using assms by (intro signed_take_bit_int_eq_self) auto

lemma sint_add_no_wrap:
  fixes a b :: go_int
  assumes "- (2 ^ 63) \<le> sint a + sint b" "sint a + sint b < 2 ^ 63"
  shows "sint (a + b) = sint a + sint b"
  using assms by (simp add: sint_word_ariths sint_in_range)

lemma sint_sub_no_wrap:
  fixes a b :: go_int
  assumes "- (2 ^ 63) \<le> sint a - sint b" "sint a - sint b < 2 ^ 63"
  shows "sint (a - b) = sint a - sint b"
  using assms by (simp add: sint_word_ariths sint_in_range)

lemma sint_mult_no_wrap:
  fixes a b :: go_int
  assumes "- (2 ^ 63) \<le> sint a * sint b" "sint a * sint b < 2 ^ 63"
  shows "sint (a * b) = sint a * sint b"
  using assms by (simp add: sint_word_ariths sint_in_range)

lemma sint_succ:
  fixes i stop :: go_int
  assumes "i <s stop"
  shows "sint (i + 1) = sint i + 1"
proof -
  have a: "sint i < sint stop" using assms by (simp add: word_sless_alt)
  have b: "sint stop < 2 ^ 63" using sint_lt [of stop] by simp
  have c: "- (2 ^ 63) \<le> sint i" using sint_ge [of i] by simp
  show ?thesis using a b c by (subst sint_add_no_wrap) auto
qed

lemma unat_of_nonneg:
  fixes i :: go_int
  assumes "0 \<le> sint i"
  shows "unat i = nat (sint i)"
proof -
  have "sint i < 2 ^ 63" using sint_lt [of i] by simp
  then have "take_bit 64 (sint i) = sint i"
    using assms by (simp add: take_bit_int_eq_self)
  then have "uint i = sint i" using uint_sint [of i] by simp
  then show ?thesis by (simp add: unat_eq_nat_uint)
qed

lemma sint_len:
  assumes "length xs < 2 ^ 63"
  shows "sint (len xs) = int (length xs)"
proof -
  have "sint (len xs) = signed_take_bit 63 (int (length xs))"
    by (simp add: len_def signed_of_nat)
  also have "\<dots> = int (length xs)"
    using assms by (intro sint_in_range) auto
  finally show ?thesis .
qed

lemma sdiv_nonneg:
  fixes a b :: int
  shows "0 \<le> a \<Longrightarrow> 0 < b \<Longrightarrow> a sdiv b = a div b"
  by (simp add: signed_divide_int_def sgn_if)

lemma sdiv_one_pos:
  fixes b :: int
  shows "0 < b \<Longrightarrow> 1 sdiv b = (if b = 1 then 1 else 0)"
  by (simp add: signed_divide_int_def sgn_if)

lemma sint_int_quo:
  fixes a b :: go_int
  assumes "1 \<le> sint b" "- 1 \<le> sint a"
  shows "sint (int_quo a b) = sint a sdiv sint b"
proof -
  have ub: "sint a < 2 ^ 63" using sint_lt [of a] by simp
  have rng: "- 1 \<le> sint a sdiv sint b \<and> sint a sdiv sint b \<le> max 0 (sint a)"
  proof (cases "0 \<le> sint a")
    case True
    then have e: "sint a sdiv sint b = sint a div sint b"
      using assms(1) by (simp add: sdiv_nonneg)
    have "0 \<le> sint a div sint b"
      using True assms(1) by (simp add: pos_imp_zdiv_nonneg_iff)
    moreover have "sint a div sint b \<le> sint a div 1"
      using True assms(1) by (intro zdiv_mono2) auto
    ultimately show ?thesis using e by simp
  next
    case False
    then have "sint a = - 1" using assms(2) by simp
    then show ?thesis using assms(1) by (simp add: sdiv_one_pos)
  qed
  have "sint (int_quo a b) = signed_take_bit 63 (sint a sdiv sint b)"
    by (simp add: int_quo_def sint_sbintrunc')
  also have "\<dots> = sint a sdiv sint b"
    using rng ub by (intro sint_in_range) auto
  finally show ?thesis .
qed

section \<open>Facts about the pagination helpers\<close>

lemma validatePerPage_range:
  "1 \<le>s validatePerPage p \<and> validatePerPage p \<le>s 100"
  by (cases p)
     (simp_all add: validatePerPage_def defaultPerPage_def maxPerPage_def
        word_sle_eq word_sless_alt)

lemma sint_totalPages:
  fixes p t :: go_int
  assumes p: "1 \<le> sint p" and t: "0 \<le> sint t"
  shows "sint (totalPages p t) = (if sint t = 0 then 1 else (sint t - 1) div sint p + 1)"
proof -
  have tub: "sint t < 2 ^ 63" using sint_lt [of t] by simp
  have t1: "sint (t - 1) = sint t - 1"
    using t tub by (subst sint_sub_no_wrap) auto
  have q: "sint (int_quo (t - 1) p) = (sint t - 1) sdiv sint p"
    using p t t1 by (simp add: sint_int_quo)
  show ?thesis
  proof (cases "sint t = 0")
    case True
    have qv: "sint (int_quo (t - 1) p) = (if sint p = 1 then - 1 else 0)"
      using q True p by (simp add: sdiv_one_pos)
    have "int_quo (t - 1) p + 1 = 0 \<or> int_quo (t - 1) p + 1 = 1"
    proof (cases "sint p = 1")
      case True
      then have "sint (int_quo (t - 1) p) = sint (- 1 :: go_int)" using qv by simp
      then have "int_quo (t - 1) p = - 1" by (rule signed_word_eqI)
      then show ?thesis by simp
    next
      case False
      then have "sint (int_quo (t - 1) p) = sint (0 :: go_int)" using qv by simp
      then have "int_quo (t - 1) p = 0" by (rule signed_word_eqI)
      then show ?thesis by simp
    qed
    then show ?thesis using True by (auto simp: totalPages_def Let_def)
  next
    case False
    then have pos: "0 \<le> sint t - 1" using t by simp
    have qd: "(sint t - 1) sdiv sint p = (sint t - 1) div sint p"
      using pos p by (simp add: sdiv_nonneg)
    have q0: "0 \<le> (sint t - 1) div sint p"
      using pos p by (simp add: pos_imp_zdiv_nonneg_iff)
    have q1: "(sint t - 1) div sint p \<le> (sint t - 1) div 1"
      using pos p by (intro zdiv_mono2) auto
    have s: "sint (int_quo (t - 1) p + 1) = (sint t - 1) div sint p + 1"
      using q qd q0 q1 tub by (subst sint_add_no_wrap) auto
    then have "sint (int_quo (t - 1) p + 1) \<noteq> sint (0 :: go_int)" using q0 by simp
    then have "int_quo (t - 1) p + 1 \<noteq> 0" by metis
    then show ?thesis using s False by (simp add: totalPages_def Let_def)
  qed
qed

lemma validateSkipCount_nonneg: "0 \<le>s validateSkipCount page perPage"
  by (simp add: validateSkipCount_def Let_def word_sle_eq word_sless_alt)

lemma validatePage_None:
  "\<not> perPage <s 1 \<Longrightarrow> validatePage None perPage t = Inr (1, None)"
  by (simp add: validatePage_def)

lemma validatePage_Some:
  assumes "1 \<le> sint p" "0 \<le> sint t"
  shows "validatePage (Some g) p t =
     (if 1 \<le> sint g \<and> sint g \<le> (if sint t = 0 then 1 else (sint t - 1) div sint p + 1)
      then Inr (g, None)
      else Inr (1, Some (ErrPageRange (totalPages p t) g)))"
  using assms sint_totalPages [OF assms]
  by (auto simp: validatePage_def Let_def word_sless_alt word_sle_eq)

lemma validatePage_ok_bounds:
  assumes p: "1 \<le> sint p" and t: "0 \<le> sint t"
    and ok: "validatePage pagePtr p t = Inr (g, None)"
  shows "1 \<le> sint g \<and> (sint g - 1) * sint p \<le> max 0 (sint t - 1)"
proof (cases pagePtr)
  case None
  then have "g = 1" using ok p by (simp add: validatePage_def word_sless_alt)
  then show ?thesis by simp
next
  case (Some g')
  have r: "g' = g \<and> 1 \<le> sint g \<and> sint g \<le> (if sint t = 0 then 1 else (sint t - 1) div sint p + 1)"
    using ok Some validatePage_Some [OF p t, of g'] by (auto split: if_splits)
  show ?thesis
  proof (cases "sint t = 0")
    case True
    then have "sint g = 1" using r by simp
    then show ?thesis by simp
  next
    case False
    then have pos: "0 \<le> sint t - 1" using t by simp
    have "sint g - 1 \<le> (sint t - 1) div sint p" using r False by simp
    then have "(sint g - 1) * sint p \<le> (sint t - 1) div sint p * sint p"
      using p by (intro mult_right_mono) auto
    also have "\<dots> \<le> sint t - 1"
    proof -
      have "(sint t - 1) div sint p * sint p + (sint t - 1) mod sint p = sint t - 1"
        by (rule div_mult_mod_eq)
      moreover have "0 \<le> (sint t - 1) mod sint p" using p by simp
      ultimately show ?thesis by linarith
    qed
    finally show ?thesis using r by simp
  qed
qed


lemma sint_MinInt: "sint (MinInt a b) = min (sint a) (sint b)"
  by (simp add: MinInt_def word_sless_alt min_def)

lemma page_window:
  assumes p: "1 \<le> sint p" and t: "0 \<le> sint t"
    and ok: "validatePage pagePtr p t = Inr (g, None)"
  shows "sint (validateSkipCount g p) = (sint g - 1) * sint p"
    and "sint (MinInt p (t - validateSkipCount g p))
           = min (sint p) (sint t - (sint g - 1) * sint p)"
    and "0 \<le> (sint g - 1) * sint p"
    and "(sint g - 1) * sint p \<le> sint t"
    and "sint (validateSkipCount g p + MinInt p (t - validateSkipCount g p))
           = (sint g - 1) * sint p + min (sint p) (sint t - (sint g - 1) * sint p)"
proof -
  have tub: "sint t < 2 ^ 63" using sint_lt [of t] by simp
  have gub: "sint g < 2 ^ 63" using sint_lt [of g] by simp
  have b: "1 \<le> sint g" "(sint g - 1) * sint p \<le> max 0 (sint t - 1)"
    using validatePage_ok_bounds [OF p t ok] by auto
  have g1: "sint (g - 1) = sint g - 1"
    using b(1) gub by (subst sint_sub_no_wrap) auto
  show nn: "0 \<le> (sint g - 1) * sint p" using b(1) p by simp
  show le: "(sint g - 1) * sint p \<le> sint t" using b(2) t by linarith
  have m: "sint ((g - 1) * p) = (sint g - 1) * sint p"
    using nn le tub g1 by (subst sint_mult_no_wrap) auto
  have sk: "validateSkipCount g p = (g - 1) * p"
    using m nn by (simp add: validateSkipCount_def Let_def word_sless_alt)
  show s1: "sint (validateSkipCount g p) = (sint g - 1) * sint p"
    using sk m by simp
  have d: "sint (t - validateSkipCount g p) = sint t - (sint g - 1) * sint p"
    using s1 nn le tub t by (subst sint_sub_no_wrap) auto
  show s2: "sint (MinInt p (t - validateSkipCount g p))
           = min (sint p) (sint t - (sint g - 1) * sint p)"
    using d by (simp add: sint_MinInt)
  show "sint (validateSkipCount g p + MinInt p (t - validateSkipCount g p))
           = (sint g - 1) * sint p + min (sint p) (sint t - (sint g - 1) * sint p)"
    using s1 s2 nn le tub t p by (subst sint_add_no_wrap) auto
qed


section \<open>Facts about the sort\<close>

lemma mset_insert_by: "mset (insert_by lt x xs) = add_mset x (mset xs)"
  by (induction xs) auto

lemma mset_foldr_insert_by: "mset (foldr (insert_by lt) xs []) = mset xs"
  by (induction xs) (auto simp: mset_insert_by)

lemma mset_rearranged: "mset (rearranged arrange xs) = mset xs"
  by (simp add: rearranged_def)

lemma mset_sort_Slice: "mset (sort_Slice arrange lt xs) = mset xs"
  by (simp add: sort_Slice_def mset_foldr_insert_by mset_rearranged)

lemma length_sort_Slice: "length (sort_Slice arrange lt xs) = length xs"
  using mset_sort_Slice [of arrange lt xs] by (metis size_mset)

lemma set_insert_by: "set (insert_by lt x xs) = insert x (set xs)"
  using mset_insert_by [of lt x xs] by (metis set_mset_add_mset_insert set_mset_mset)

lemma sorted_insert_by:
  assumes trans: "\<And>a b c. \<not> lt b a \<Longrightarrow> \<not> lt c b \<Longrightarrow> \<not> lt c a"
    and asym: "\<And>a b. lt a b \<Longrightarrow> \<not> lt b a"
  shows "sorted_wrt (\<lambda>a b. \<not> lt b a) xs \<Longrightarrow> sorted_wrt (\<lambda>a b. \<not> lt b a) (insert_by lt x xs)"
proof (induction xs)
  case Nil
  then show ?case by simp
next
  case (Cons y ys)
  show ?case
  proof (cases "lt y x")
    case True
    then have "\<not> lt x y" by (rule asym)
    moreover have "\<forall>z\<in>set ys. \<not> lt z y" using Cons.prems by simp
    ultimately show ?thesis using True Cons by (auto simp: set_insert_by)
  next
    case False
    have "\<forall>z\<in>set ys. \<not> lt z x"
    proof
      fix z assume "z \<in> set ys"
      then have "\<not> lt z y" using Cons.prems by simp
      with False show "\<not> lt z x" by (rule trans)
    qed
    then show ?thesis using False Cons.prems by simp
  qed
qed

lemma sorted_foldr_insert_by:
  assumes trans: "\<And>a b c. \<not> lt b a \<Longrightarrow> \<not> lt c b \<Longrightarrow> \<not> lt c a"
    and asym: "\<And>a b. lt a b \<Longrightarrow> \<not> lt b a"
  shows "sorted_wrt (\<lambda>a b. \<not> lt b a) (foldr (insert_by lt) xs [])"
proof (induction xs)
  case Nil
  show ?case by simp
next
  case (Cons x xs)
  then show ?case using sorted_insert_by [of lt, OF trans asym] by simp
qed

lemma sorted_sort_Slice:
  assumes trans: "\<And>a b c. \<not> lt b a \<Longrightarrow> \<not> lt c b \<Longrightarrow> \<not> lt c a"
    and asym: "\<And>a b. lt a b \<Longrightarrow> \<not> lt b a"
  shows "sorted_wrt (\<lambda>a b. \<not> lt b a) (sort_Slice arrange lt xs)"
  unfolding sort_Slice_def using trans asym by (rule sorted_foldr_insert_by)

text \<open>
  The insertion sort leaves a sorted list as it is, so every sorted permutation of a
  slice is the result of \<open>sort_Slice\<close> for some rearrangement.
\<close>

lemma foldr_insert_by_sorted:
  "sorted_wrt (\<lambda>a b. \<not> lt b a) s \<Longrightarrow> foldr (insert_by lt) s [] = s"
proof (induction s)
  case Nil
  show ?case by simp
next
  case (Cons x s)
  then have "foldr (insert_by lt) s [] = s" by simp
  moreover have "insert_by lt x s = x # s"
    using Cons.prems by (cases s) auto
  ultimately show ?case by simp
qed

lemma sort_Slice_reaches_every_sorted_permutation:
  assumes "mset s = mset xs" and "sorted_wrt (\<lambda>a b. \<not> lt b a) s"
  shows "sort_Slice (\<lambda>_ _. s) lt xs = s"
  using assms by (simp add: sort_Slice_def rearranged_def foldr_insert_by_sorted)

section \<open>Facts about the page loop\<close>

lemma TxSearch_loop_slice:
  "0 \<le> sint i \<Longrightarrow> sint i \<le> sint stop \<Longrightarrow> nat (sint stop) \<le> length rs \<Longrightarrow>
   TxSearch_loop h rs i stop acc =
     Inr (acc @ map (toResultTx h) (take (nat (sint stop - sint i)) (drop (nat (sint i)) rs)))"
proof (induction h rs i stop acc rule: TxSearch_loop.induct)
  case (1 hash results i stop apiResults)
  show ?case
  proof (cases "i <s stop")
    case False
    then have "sint stop = sint i" using "1.prems" by (simp add: word_sless_alt)
    then show ?thesis using False by (subst TxSearch_loop.simps) simp
  next
    case True
    have lt: "sint i < sint stop" using True by (simp add: word_sless_alt)
    have u: "unat i = nat (sint i)" using "1.prems"(1) by (rule unat_of_nonneg)
    have inb: "unat i < length results" using u lt "1.prems" by linarith
    have s: "sint (i + 1) = sint i + 1" using True by (rule sint_succ)
    have ih: "TxSearch_loop hash results (i + 1) stop (apiResults @ [toResultTx hash (results ! unat i)])
        = Inr ((apiResults @ [toResultTx hash (results ! unat i)]) @
               map (toResultTx hash)
                 (take (nat (sint stop - sint (i + 1))) (drop (nat (sint (i + 1))) results)))"
      using "1.IH" [OF True inb] "1.prems" lt s by simp
    have n1: "nat (sint stop - sint i) = Suc (nat (sint stop - sint (i + 1)))"
      using lt s by simp
    have n2: "nat (sint (i + 1)) = Suc (nat (sint i))" using s "1.prems"(1) by simp
    have "take (nat (sint stop - sint i)) (drop (nat (sint i)) results)
        = results ! unat i #
          take (nat (sint stop - sint (i + 1))) (drop (nat (sint (i + 1))) results)"
      using inb u by (simp add: n1 n2 Cons_nth_drop_Suc [symmetric])
    then show ?thesis
      using True inb ih by (subst TxSearch_loop.simps) simp
  qed
qed

lemma orderResults_length:
  "orderResults arrange orderBy found = Some results \<Longrightarrow> length results = length found"
  by (auto simp: orderResults_def length_sort_Slice split: if_splits)

lemma TxSearch_page:
  assumes q: "tmquery_New node query = Inr q"
    and f: "TxIndexer_Search node q = Inr found"
    and n: "length found < 2 ^ 63"
    and r: "orderResults (Sort_arrange node) orderBy found = Some results"
    and ok: "validatePage pagePtr (validatePerPage perPagePtr) (len results) = Inr (page, None)"
  shows "TxSearch node query prove pagePtr perPagePtr orderBy =
     Inr (Some \<lparr>Txs = map (toResultTx (Tx_Hash node))
                        (take (nat (sint (MinInt (validatePerPage perPagePtr)
                                 (len results - validateSkipCount page (validatePerPage perPagePtr)))))
                           (drop (nat (sint (validateSkipCount page (validatePerPage perPagePtr))))
                              results)),
                TotalCount = len results\<rparr>, None)"
proof -
  let ?p = "validatePerPage perPagePtr"
  let ?skip = "validateSkipCount page ?p"
  let ?size = "MinInt ?p (len results - ?skip)"
  have ln: "length results < 2 ^ 63" using n r by (simp add: orderResults_length)
  have t: "sint (len results) = int (length results)" using ln by (rule sint_len)
  have t0: "0 \<le> sint (len results)" using t by simp
  have p: "1 \<le> sint ?p" using validatePerPage_range [of perPagePtr] by (simp add: word_sle_eq)
  note w = page_window [OF p t0 ok]
  have size0: "\<not> ?size <s 0" using w(2) w(4) p by (simp add: word_sless_alt)
  have loop: "TxSearch_loop (Tx_Hash node) results ?skip (?skip + ?size) []
      = Inr ([] @ map (toResultTx (Tx_Hash node))
           (take (nat (sint (?skip + ?size) - sint ?skip)) (drop (nat (sint ?skip)) results)))"
    using w p t by (intro TxSearch_loop_slice) auto
  have "sint (?skip + ?size) - sint ?skip = sint ?size" using w by simp
  then have loop': "TxSearch_loop (Tx_Hash node) results ?skip (?skip + ?size) []
      = Inr (map (toResultTx (Tx_Hash node))
           (take (nat (sint ?size)) (drop (nat (sint ?skip)) results)))"
    using loop by simp
  show ?thesis
    using q f r ok size0 loop' by (simp add: TxSearch_def Let_def)
qed

lemma orderResults_Nil:
  "orderBy = '''' \<or> orderBy = ''asc'' \<or> orderBy = ''desc'' \<Longrightarrow> orderResults arrange orderBy [] = Some []"
  by (auto simp: orderResults_def sort_Slice_def rearranged_def)

lemma len_Nil: "len [] = 0"
  by (simp add: len_def)

lemma sint_neq: "a \<noteq> b \<Longrightarrow> sint (a :: int64) \<noteq> sint b"
  using signed_word_eqI by blast

lemma not_less_asc: "(\<not> less_asc b a) = hit_le a b"
proof (cases "Height a = Height b")
  case True
  then show ?thesis by (simp add: less_asc_def hit_le_def not_less)
next
  case False
  then have "sint (Height a) \<noteq> sint (Height b)" by (rule sint_neq)
  then show ?thesis using False by (auto simp: less_asc_def hit_le_def word_sless_alt)
qed

lemma not_less_desc: "(\<not> less_desc b a) = hit_le b a"
proof (cases "Height a = Height b")
  case True
  then show ?thesis by (simp add: less_desc_def hit_le_def not_less)
next
  case False
  then have "sint (Height a) \<noteq> sint (Height b)" by (rule sint_neq)
  then show ?thesis using False by (auto simp: less_desc_def hit_le_def word_sless_alt)
qed

lemma hit_le_trans: "hit_le a b \<Longrightarrow> hit_le b c \<Longrightarrow> hit_le a c"
  by (auto simp: hit_le_def word_sless_alt)

lemma less_asc_asym: "less_asc a b \<Longrightarrow> \<not> less_asc b a"
  by (auto simp: less_asc_def word_sless_alt split: if_splits)

lemma less_desc_asym: "less_desc a b \<Longrightarrow> \<not> less_desc b a"
  by (auto simp: less_desc_def word_sless_alt split: if_splits)

lemma sorted_sort_asc: "sorted_wrt hit_le (sort_Slice arrange less_asc xs)"
proof -
  have "sorted_wrt (\<lambda>a b. \<not> less_asc b a) (sort_Slice arrange less_asc xs)"
  proof (rule sorted_sort_Slice)
    fix a b c assume "\<not> less_asc b a" "\<not> less_asc c b"
    then show "\<not> less_asc c a" using hit_le_trans [of a b c] by (simp add: not_less_asc)
  next
    fix a b assume "less_asc a b" then show "\<not> less_asc b a" by (rule less_asc_asym)
  qed
  then show ?thesis by (simp add: not_less_asc)
qed

lemma sorted_sort_desc: "sorted_wrt (\<lambda>a b. hit_le b a) (sort_Slice arrange less_desc xs)"
proof -
  have "sorted_wrt (\<lambda>a b. \<not> less_desc b a) (sort_Slice arrange less_desc xs)"
  proof (rule sorted_sort_Slice)
    fix a b c assume "\<not> less_desc b a" "\<not> less_desc c b"
    then show "\<not> less_desc c a" using hit_le_trans [of c b a] by (simp add: not_less_desc)
  next
    fix a b assume "less_desc a b" then show "\<not> less_desc b a" by (rule less_desc_asym)
  qed
  then show ?thesis by (simp add: not_less_desc)
qed

lemma by_height_index_toResultTx:
  "by_height_index (toResultTx h a) (toResultTx h b) = hit_le a b"
  by (simp add: by_height_index_def hit_le_def toResultTx_def)

lemma sorted_page_asc:
  "sorted_wrt hit_le xs \<Longrightarrow>
   sorted_wrt by_height_index (map (toResultTx h) (take n (drop k xs)))"
  by (simp add: sorted_wrt_map by_height_index_toResultTx)

lemma sorted_page_desc:
  "sorted_wrt (\<lambda>a b. hit_le b a) xs \<Longrightarrow>
   sorted_wrt (\<lambda>a b. by_height_index b a) (map (toResultTx h) (take n (drop k xs)))"
  by (simp add: sorted_wrt_map by_height_index_toResultTx)

lemma validatePage_page:
  "validatePage pagePtr p t = Inr (page, None) \<Longrightarrow>
   page = (case pagePtr of None \<Rightarrow> 1 | Some g \<Rightarrow> g)"
  by (auto simp: validatePage_def Let_def split: if_splits option.splits)

lemma TxSearch_success_page:
  assumes q: "tmquery_New node query = Inr q"
    and f: "TxIndexer_Search node q = Inr found"
    and r: "orderResults (Sort_arrange node) orderBy found = Some results"
    and ok: "TxSearch node query prove pagePtr perPagePtr orderBy = Inr (Some res, None)"
  shows "validatePage pagePtr (validatePerPage perPagePtr) (len results)
           = Inr (case pagePtr of None \<Rightarrow> 1 | Some g \<Rightarrow> g, None)"
proof -
  obtain page where "validatePage pagePtr (validatePerPage perPagePtr) (len results) = Inr (page, None)"
    using ok q f r
    by (auto simp: TxSearch_def Let_def split: sum.splits option.splits prod.splits)
  then show ?thesis using validatePage_page by blast
qed

lemma TxSearch_loop_proofs:
  "TxSearch_loop h rs i stop acc = Inr out \<Longrightarrow>
   \<forall>r\<in>set acc. rtx_Proof r = zero_TxProof \<Longrightarrow>
   \<forall>r\<in>set out. rtx_Proof r = zero_TxProof"
proof (induction h rs i stop acc rule: TxSearch_loop.induct)
  case (1 hash results i stop apiResults)
  show ?case
  proof (cases "i <s stop \<and> unat i < length results")
    case True
    have p: "rtx_Proof (toResultTx hash (results ! unat i)) = zero_TxProof"
      by (simp add: toResultTx_def)
    have "TxSearch_loop hash results (i + 1) stop
            (apiResults @ [toResultTx hash (results ! unat i)]) = Inr out"
      using "1.prems"(1) True by (subst (asm) TxSearch_loop.simps) simp
    then show ?thesis using "1.IH" True "1.prems"(2) p by simp
  next
    case False
    then have "out = apiResults"
      using "1.prems"(1) by (subst (asm) TxSearch_loop.simps) (auto split: if_splits)
    then show ?thesis using "1.prems"(2) by simp
  qed
qed

lemma TxSearch_success_slice:
  assumes q: "tmquery_New node query = Inr q"
    and f: "TxIndexer_Search node q = Inr found"
    and n: "length found < 2 ^ 63"
    and r: "orderResults (Sort_arrange node) orderBy found = Some results"
    and ok: "TxSearch node query prove pagePtr perPagePtr orderBy = Inr (Some res, None)"
  shows "Txs res = map (toResultTx (Tx_Hash node)) (page_slice pagePtr perPagePtr results)"
proof -
  have v: "validatePage pagePtr (validatePerPage perPagePtr) (len results)
           = Inr (case pagePtr of None \<Rightarrow> 1 | Some g \<Rightarrow> g, None)"
    using q f r ok by (rule TxSearch_success_page)
  show ?thesis
    using ok TxSearch_page [OF q f n r v, of prove]
    by (auto simp: page_slice_def Let_def)
qed


lemmas eval_defs = TxSearch_def fixed_search_def arranged_search_def orderResults_def
      sort_Slice_def rearranged_def len_def
      validatePerPage_def defaultPerPage_def maxPerPage_def validatePage_def totalPages_def
      int_quo_def signed_divide_int_def Let_def word_sle_eq word_sless_alt
      less_asc_def less_desc_def hit_def validateSkipCount_def MinInt_def TxSearch_loop.simps

text \<open>The panics of the model of \<open>TxSearch\<close> are not reachable with a slice that Go can hold.\<close>

lemma validatePage_no_panic:
  "\<exists>page e. validatePage pagePtr (validatePerPage perPagePtr) t = Inr (page, e)"
proof -
  have "\<not> validatePerPage perPagePtr <s 1"
    using validatePerPage_range [of perPagePtr] by (simp add: word_sle_eq word_sless_alt)
  then show ?thesis
    by (auto simp: validatePage_def Let_def split: option.splits)
qed

lemma TxSearch_no_panic:
  assumes n: "\<And>q found. tmquery_New node query = Inr q \<Longrightarrow>
                TxIndexer_Search node q = Inr found \<Longrightarrow> length found < 2 ^ 63"
  shows "\<exists>returned. TxSearch node query prove pagePtr perPagePtr orderBy = Inr returned"
proof (cases "tmquery_New node query")
  case (Inl e)
  then show ?thesis by (simp add: TxSearch_def)
next
  case q: (Inr q)
  show ?thesis
  proof (cases "TxIndexer_Search node q")
    case (Inl e)
    then show ?thesis using q by (simp add: TxSearch_def)
  next
    case f: (Inr found)
    have len: "length found < 2 ^ 63" using q f by (rule n)
    show ?thesis
    proof (cases "orderResults (Sort_arrange node) orderBy found")
      case None
      then show ?thesis using q f by (simp add: TxSearch_def)
    next
      case r: (Some results)
      obtain page e where v: "validatePage pagePtr (validatePerPage perPagePtr) (len results) = Inr (page, e)"
        using validatePage_no_panic by blast
      show ?thesis
      proof (cases e)
        case None
        then show ?thesis using TxSearch_page [OF q f len r, of pagePtr perPagePtr page prove] v by simp
      next
        case (Some err)
        then show ?thesis using q f r v by (simp add: TxSearch_def Let_def)
      qed
    qed
  qed
qed

section \<open>Facts about the broadcast functions, the backoff and the registry\<close>

lemma BroadcastTxCommit_admitted:
  assumes "NumClients env <s MaxSubscriptionClients env"
    and "NumClientSubscriptions env '''' <s MaxSubscriptionsPerClient env"
    and "Subscribe_err env = None"
  shows "BroadcastTxCommit node env tx =
     (fst (BroadcastTxCommit_subscribed node env tx),
      [EventBus_Subscribe '''' (EventQueryTxFor node tx) []]
        @ snd (BroadcastTxCommit_subscribed node env tx)
        @ deferred_Unsubscribe env '''' (EventQueryTxFor node tx))"
  using assms
  by (simp add: BroadcastTxCommit_def Let_def word_sle_eq word_sless_alt split: prod.splits)

lemma Unsubscribe_in_deferred:
  "EventBus_Unsubscribe subscriber q \<in> set (deferred_Unsubscribe env subscriber q)"
  by (simp add: deferred_Unsubscribe_def split: option.splits)

lemma no_gossip_in_deferred:
  "P2P_GossipTx t \<notin> set (deferred_Unsubscribe env subscriber q)"
  by (simp add: deferred_Unsubscribe_def split: option.splits)

lemma resubscribe_loop_failures:
  "resubscribe_loop a (replicate n (True, Inl e) @ rest) slept =
     resubscribe_loop (a + of_nat n) rest
       (slept @ map (\<lambda>k. backoff (a + 1 + of_nat k)) [0..<n])"
proof (induction n arbitrary: a slept)
  case 0
  show ?case by simp
next
  case (Suc n)
  have "resubscribe_loop a (replicate (Suc n) (True, Inl e) @ rest) slept
      = resubscribe_loop (a + 1) (replicate n (True, Inl e) @ rest) (slept @ [backoff (a + 1)])"
    by (simp add: Let_def)
  also have "\<dots> = resubscribe_loop (a + 1 + of_nat n) rest
       ((slept @ [backoff (a + 1)]) @ map (\<lambda>k. backoff (a + 1 + 1 + of_nat k)) [0..<n])"
    by (rule Suc.IH)
  also have "a + 1 + of_nat n = a + of_nat (Suc n)" by simp
  also have "(slept @ [backoff (a + 1)]) @ map (\<lambda>k. backoff (a + 1 + 1 + of_nat k)) [0..<n]
      = slept @ map (\<lambda>k. backoff (a + 1 + of_nat k)) [0..<Suc n]"
    by (simp add: map_upt_Suc add.assoc del: upt_Suc)
  finally show ?case .
qed

lemma backoff_value:
  assumes "k \<le> 39"
  shows "sint (backoff (of_nat k)) = 10 * 2 ^ k * 1000000"
proof -
  have "(2::int) ^ k \<le> 2 ^ 39" using assms by (intro power_increasing) auto
  then have b: "10 * 2 ^ k * 1000000 < (2::int) ^ 63" by simp
  have "k < 2 ^ 64" using assms by simp
  then have u: "unat (of_nat k :: go_int) = k"
    by (simp add: unat_of_nat)
  have "backoff (of_nat k) = word_of_int (10 * 2 ^ k * 1000000)"
    by (simp add: backoff_def Millisecond_def u push_bit_eq_mult)
  then have "sint (backoff (of_nat k)) = signed_take_bit 63 (10 * 2 ^ k * 1000000 :: int)"
    by (simp only: sint_sbintrunc') simp
  also have "\<dots> = 10 * 2 ^ k * 1000000"
  proof (rule sint_in_range)
    have "- (2 ^ 63) \<le> (0::int)" by simp
    also have "(0::int) \<le> 10 * 2 ^ k * 1000000" by simp
    finally show "- (2 ^ 63) \<le> (10 * 2 ^ k * 1000000 :: int)" .
    show "(10 * 2 ^ k * 1000000 :: int) < 2 ^ 63" by (rule b)
  qed
  finally show ?thesis .
qed

lemma resubscribe_delays:
  "resubscribe (replicate n (True, Inl e) @ [(True, Inr sub)])
     = Some (Some sub, map (\<lambda>k. backoff (of_nat (Suc k))) [0..<n])"
  using resubscribe_loop_failures [of 0 n e "[(True, Inr sub)]" "[]"]
  by (simp add: resubscribe_def add.commute)

lemma GetClient_registered:
  "GetClient ''mock'' = Inr MockDataAvailabilityLayerClient"
  "GetClient ''grpc'' = Inr GrpcDataAvailabilityLayerClient"
  by (simp_all add: GetClient_def clients_def)

lemma GetClient_unregistered:
  "name \<noteq> ''mock'' \<Longrightarrow> name \<noteq> ''grpc'' \<Longrightarrow> GetClient name = Inl PanicNilFunc"
  by (simp add: GetClient_def clients_def)

lemma BroadcastTxCommit_over_client_limit:
  "MaxSubscriptionClients env \<le>s NumClients env \<Longrightarrow>
   BroadcastTxCommit node env tx =
     ((None, Some (ErrMaxSubscriptionClients (MaxSubscriptionClients env))), [])"
  by (simp add: BroadcastTxCommit_def)

lemma BroadcastTxCommit_over_subscription_limit:
  "\<not> MaxSubscriptionClients env \<le>s NumClients env \<Longrightarrow>
   MaxSubscriptionsPerClient env \<le>s NumClientSubscriptions env [] \<Longrightarrow>
   BroadcastTxCommit node env tx =
     ((None, Some (ErrMaxSubscriptionsPerClient (MaxSubscriptionsPerClient env))), [])"
  by (simp add: BroadcastTxCommit_def)

lemma Subscribe_reads_no_counter:
  "Subscribe node (env\<lparr>NumClients := n, NumClientSubscriptions := f\<rparr>) subscriber query capacity
     = Subscribe node env subscriber query capacity"
  by (simp add: Subscribe_def split: sum.splits)

lemma Subscribe_without_admission_check:
  "ParseQuery node query = Inr q \<Longrightarrow> Subscribe_err env = None \<Longrightarrow>
   Subscribe node env subscriber query [] =
     (Inr (Some (Chan 1), None),
      [EventBus_Subscribe subscriber q [1], Go_eventsRoutine subscriber q])"
  by (simp add: Subscribe_def Let_def word_sless_alt)

section \<open>Pagination invariants\<close>

text \<open>
  C9.  Whatever per-page value the caller supplies, the effective per-page value lies in
  \<open>[1, 100]\<close>: an absent value and a value below 1 give the default 30, a value above 100
  gives 100.  The number of pages computed for a non-negative total is at least 1, and it
  is 1 for the total 0.  The skip count is never negative, for every page and per-page
  value.
\<close>

theorem pagination_invariants:
  "1 \<le>s validatePerPage perPagePtr \<and> validatePerPage perPagePtr \<le>s 100
   \<and> validatePerPage None = 30
   \<and> (v <s 1 \<longrightarrow> validatePerPage (Some v) = 30)
   \<and> (100 <s v \<longrightarrow> validatePerPage (Some v) = 100)
   \<and> (0 \<le>s totalCount \<longrightarrow> 1 \<le>s totalPages (validatePerPage perPagePtr) totalCount)
   \<and> totalPages (validatePerPage perPagePtr) 0 = 1
   \<and> 0 \<le>s validateSkipCount page perPage"
proof -
  have r: "1 \<le>s validatePerPage perPagePtr \<and> validatePerPage perPagePtr \<le>s 100"
    by (rule validatePerPage_range)
  then have p: "1 \<le> sint (validatePerPage perPagePtr)" by (simp add: word_sle_eq)
  have d: "validatePerPage None = 30"
    by (simp add: validatePerPage_def defaultPerPage_def)
  have lo: "v <s 1 \<longrightarrow> validatePerPage (Some v) = 30"
    by (simp add: validatePerPage_def defaultPerPage_def)
  have hi: "100 <s v \<longrightarrow> validatePerPage (Some v) = 100"
    by (auto simp: validatePerPage_def maxPerPage_def word_sless_alt)
  have pg: "0 \<le>s totalCount \<longrightarrow> 1 \<le>s totalPages (validatePerPage perPagePtr) totalCount"
  proof
    assume "0 \<le>s totalCount"
    then have t: "0 \<le> sint totalCount" by (simp add: word_sle_eq)
    have "0 \<le> (sint totalCount - 1) div sint (validatePerPage perPagePtr)"
      if "sint totalCount \<noteq> 0"
      using that t p by (simp add: pos_imp_zdiv_nonneg_iff)
    then have "1 \<le> sint (totalPages (validatePerPage perPagePtr) totalCount)"
      using sint_totalPages [OF p t] by auto
    then show "1 \<le>s totalPages (validatePerPage perPagePtr) totalCount"
      by (simp add: word_sle_eq)
  qed
  have "sint (totalPages (validatePerPage perPagePtr) 0) = sint (1 :: go_int)"
    using sint_totalPages [OF p, of 0] by simp
  then have z: "totalPages (validatePerPage perPagePtr) 0 = 1" by (rule signed_word_eqI)
  have sk: "0 \<le>s validateSkipCount page perPage" by (rule validateSkipCount_nonneg)
  show ?thesis using r d lo hi pg z sk by blast
qed

theorem pagination_invariants_witness:
  "validatePerPage (Some 1000) = 100 \<and> (1000 :: go_int) \<le>s 1000
   \<and> (- 5 :: go_int) <s 1 \<and> validatePerPage (Some (- 5)) = 30
   \<and> (100 :: go_int) <s 1000
   \<and> (0 :: go_int) \<le>s 45 \<and> 1 \<le>s totalPages (validatePerPage (Some 1000)) 45
   \<and> totalPages (validatePerPage (Some 1000)) 45 = 1
   \<and> totalPages (validatePerPage None) 45 = 2
   \<and> validateSkipCount (- 3) 1000 = 0"
  using pagination_invariants [of "Some 1000" 1000 45 "- 3" 1000]
    pagination_invariants [of "Some 1000" "- 5" 45 "- 3" 1000]
  by (simp add: word_sle_eq word_sless_alt validateSkipCount_def totalPages_def int_quo_def
      validatePerPage_def defaultPerPage_def maxPerPage_def signed_divide_int_def)

section \<open>Pagination of an empty result set\<close>

text \<open>
  C3 (amended).  When the search finds nothing (total item count 0) and the order token is
  valid, the number of pages is 1 whatever the per-page value.  With the page absent or
  equal to 1 the call succeeds: effective page 1, skip count 0, page size 0, an empty list
  of hits and total count 0.  With any other requested page the call fails with the range
  error that names \<open>[1, 1]\<close> and the page given.
\<close>

theorem TxSearch_empty_total:
  assumes q: "tmquery_New node query = Inr q"
    and f: "TxIndexer_Search node q = Inr []"
    and o: "orderBy = '''' \<or> orderBy = ''asc'' \<or> orderBy = ''desc''"
  shows "totalPages (validatePerPage perPagePtr) 0 = 1
    \<and> (pagePtr = None \<or> pagePtr = Some 1 \<longrightarrow>
         validatePage pagePtr (validatePerPage perPagePtr) 0 = Inr (1, None)
         \<and> validateSkipCount 1 (validatePerPage perPagePtr) = 0
         \<and> MinInt (validatePerPage perPagePtr) (0 - 0) = 0
         \<and> TxSearch node query prove pagePtr perPagePtr orderBy
              = Inr (Some \<lparr>Txs = [], TotalCount = 0\<rparr>, None))
    \<and> (pagePtr = Some g \<and> g \<noteq> 1 \<longrightarrow>
         TxSearch node query prove pagePtr perPagePtr orderBy
           = Inr (None, Some (ErrPageRange 1 g)))"
proof -
  let ?p = "validatePerPage perPagePtr"
  have p: "1 \<le> sint ?p" using validatePerPage_range [of perPagePtr] by (simp add: word_sle_eq)
  have np: "\<not> ?p <s 1" using p by (simp add: word_sless_alt)
  have "sint (totalPages ?p 0) = sint (1 :: go_int)"
    using sint_totalPages [OF p, of 0] by simp
  then have pages: "totalPages ?p 0 = 1" by (rule signed_word_eqI)
  have r: "orderResults (Sort_arrange node) orderBy [] = Some []"
    using o by (rule orderResults_Nil)
  have skip: "validateSkipCount 1 ?p = 0" by (simp add: validateSkipCount_def)
  have size: "MinInt ?p (0 - 0) = 0" using np by (simp add: MinInt_def word_sless_alt)
  have loop: "TxSearch_loop (Tx_Hash node) [] 0 0 [] = Inr []"
    by (subst TxSearch_loop.simps) simp
  have vp: "validatePage pagePtr ?p 0 = Inr (1, None)" if "pagePtr = None \<or> pagePtr = Some 1"
    using that np pages by (auto simp: validatePage_def Let_def word_sle_eq word_sless_alt)
  have ok: "TxSearch node query prove pagePtr perPagePtr orderBy
              = Inr (Some \<lparr>Txs = [], TotalCount = 0\<rparr>, None)"
    if "pagePtr = None \<or> pagePtr = Some 1"
    using q f r vp [OF that] skip size loop by (simp add: TxSearch_def Let_def len_Nil)
  have bad: "TxSearch node query prove pagePtr perPagePtr orderBy
           = Inr (None, Some (ErrPageRange 1 g))" if "pagePtr = Some g" "g \<noteq> 1"
  proof -
    have "sint g \<noteq> 1"
    proof
      assume "sint g = 1"
      then have "sint g = sint (1 :: go_int)" by simp
      then have "g = 1" by (rule signed_word_eqI)
      then show False using that(2) by simp
    qed
    then have "g \<le>s 0 \<or> 1 <s g" by (auto simp: word_sle_eq word_sless_alt)
    then have "validatePage pagePtr ?p 0 = Inr (1, Some (ErrPageRange 1 g))"
      using that(1) np pages by (simp add: validatePage_def Let_def)
    then show ?thesis using q f r by (simp add: TxSearch_def Let_def len_Nil)
  qed
  show ?thesis using pages vp skip size ok bad by blast
qed

theorem TxSearch_empty_total_witness:
  "tmquery_New (fixed_search []) ''tx.height>0'' = Inr ''tx.height>0''
   \<and> TxIndexer_Search (fixed_search []) ''tx.height>0'' = Inr []
   \<and> totalPages (validatePerPage (Some 1)) 0 = 1
   \<and> TxSearch (fixed_search []) ''tx.height>0'' True (Some 1) (Some 1) ''desc''
        = Inr (Some \<lparr>Txs = [], TotalCount = 0\<rparr>, None)
   \<and> TxSearch (fixed_search []) ''tx.height>0'' True (Some 7) (Some 1) ''desc''
        = Inr (None, Some (ErrPageRange 1 7))"
proof -
  have q: "tmquery_New (fixed_search []) ''tx.height>0'' = Inr ''tx.height>0''"
    by (simp add: fixed_search_def arranged_search_def)
  have f: "TxIndexer_Search (fixed_search []) ''tx.height>0'' = Inr []"
    by (simp add: fixed_search_def arranged_search_def)
  have o: "''desc'' = '''' \<or> ''desc'' = ''asc'' \<or> ''desc'' = ''desc''" by simp
  show ?thesis
    using q f TxSearch_empty_total [OF q f o, of "Some 1" "Some 1" True 7]
      TxSearch_empty_total [OF q f o, of "Some 1" "Some 7" True 7]
    by simp
qed

text \<open>
  The specification as written promises success for every requested page.  Page 2 of an empty
  result set is refused.
\<close>

theorem TxSearch_empty_page_2_counterexample:
  "TxSearch (fixed_search []) ''tx.height>0'' False (Some 2) (Some 30) ''asc''
     = Inr (None, Some (ErrPageRange 1 2))"
  by (simp add: TxSearch_def fixed_search_def arranged_search_def orderResults_def
      sort_Slice_def rearranged_def len_def
      validatePerPage_def defaultPerPage_def maxPerPage_def validatePage_def totalPages_def
      int_quo_def signed_divide_int_def Let_def word_sle_eq word_sless_alt)

section \<open>Sorting before pagination\<close>

text \<open>
  C8.  When the query parses and the indexer answers, an order token other than the empty
  string, \<open>asc\<close> and \<open>desc\<close> makes \<open>TxSearch\<close> fail with the order error.  For the
  empty token and \<open>asc\<close> the hits are sorted ascending by height, with the in-block index
  as tie-break in the same direction; for \<open>desc\<close> they are sorted descending in both.  The
  sorted list is a permutation of all the hits found, whatever order the library's sort
  leaves equal hits in, and the page returned is the window
  \<open>[skipCount, skipCount + pageSize)\<close> of that sorted list: the sort comes before the
  pagination.  The page itself is therefore sorted in the same direction.
\<close>

theorem TxSearch_sorted_before_pagination:
  assumes q: "tmquery_New node query = Inr q"
    and f: "TxIndexer_Search node q = Inr found"
    and n: "length found < 2 ^ 63"
  shows
   "(orderBy \<noteq> '''' \<and> orderBy \<noteq> ''asc'' \<and> orderBy \<noteq> ''desc'' \<longrightarrow>
        TxSearch node query prove pagePtr perPagePtr orderBy = Inr (None, Some ErrOrderBy))
    \<and> (orderBy = '''' \<or> orderBy = ''asc'' \<longrightarrow>
        mset (sort_Slice (Sort_arrange node) less_asc found) = mset found
        \<and> sorted_wrt hit_le (sort_Slice (Sort_arrange node) less_asc found)
        \<and> (TxSearch node query prove pagePtr perPagePtr orderBy = Inr (Some res, None) \<longrightarrow>
             Txs res = map (toResultTx (Tx_Hash node))
                         (page_slice pagePtr perPagePtr (sort_Slice (Sort_arrange node) less_asc found))
             \<and> sorted_wrt by_height_index (Txs res)))
    \<and> (orderBy = ''desc'' \<longrightarrow>
        mset (sort_Slice (Sort_arrange node) less_desc found) = mset found
        \<and> sorted_wrt (\<lambda>a b. hit_le b a) (sort_Slice (Sort_arrange node) less_desc found)
        \<and> (TxSearch node query prove pagePtr perPagePtr orderBy = Inr (Some res, None) \<longrightarrow>
             Txs res = map (toResultTx (Tx_Hash node))
                         (page_slice pagePtr perPagePtr (sort_Slice (Sort_arrange node) less_desc found))
             \<and> sorted_wrt (\<lambda>a b. by_height_index b a) (Txs res)))"
proof (intro conjI impI)
  assume "orderBy \<noteq> '''' \<and> orderBy \<noteq> ''asc'' \<and> orderBy \<noteq> ''desc''"
  then have "orderResults (Sort_arrange node) orderBy found = None" by (simp add: orderResults_def)
  then show "TxSearch node query prove pagePtr perPagePtr orderBy = Inr (None, Some ErrOrderBy)"
    using q f by (simp add: TxSearch_def)
next
  show "mset (sort_Slice (Sort_arrange node) less_asc found) = mset found" by (rule mset_sort_Slice)
next
  show "sorted_wrt hit_le (sort_Slice (Sort_arrange node) less_asc found)" by (rule sorted_sort_asc)
next
  assume o: "orderBy = '''' \<or> orderBy = ''asc''"
    and ok: "TxSearch node query prove pagePtr perPagePtr orderBy = Inr (Some res, None)"
  have r: "orderResults (Sort_arrange node) orderBy found = Some (sort_Slice (Sort_arrange node) less_asc found)"
    using o by (auto simp: orderResults_def)
  show "Txs res = map (toResultTx (Tx_Hash node))
                    (page_slice pagePtr perPagePtr (sort_Slice (Sort_arrange node) less_asc found))"
    using q f n r ok by (rule TxSearch_success_slice)
  then show "sorted_wrt by_height_index (Txs res)"
    using sorted_sort_asc [of "Sort_arrange node" found] by (simp add: page_slice_def Let_def sorted_page_asc)
next
  show "mset (sort_Slice (Sort_arrange node) less_desc found) = mset found" by (rule mset_sort_Slice)
next
  show "sorted_wrt (\<lambda>a b. hit_le b a) (sort_Slice (Sort_arrange node) less_desc found)" by (rule sorted_sort_desc)
next
  assume o: "orderBy = ''desc''"
    and ok: "TxSearch node query prove pagePtr perPagePtr orderBy = Inr (Some res, None)"
  have r: "orderResults (Sort_arrange node) orderBy found = Some (sort_Slice (Sort_arrange node) less_desc found)"
    using o by (auto simp: orderResults_def)
  show "Txs res = map (toResultTx (Tx_Hash node))
                    (page_slice pagePtr perPagePtr (sort_Slice (Sort_arrange node) less_desc found))"
    using q f n r ok by (rule TxSearch_success_slice)
  then show "sorted_wrt (\<lambda>a b. by_height_index b a) (Txs res)"
    using sorted_sort_desc [of "Sort_arrange node" found] by (simp add: page_slice_def Let_def sorted_page_desc)
qed

theorem TxSearch_sorted_before_pagination_witness:
  "tmquery_New (fixed_search [hit 5 2, hit 5 1, hit 7 0]) ''tx.height>0'' = Inr ''tx.height>0''
   \<and> TxIndexer_Search (fixed_search [hit 5 2, hit 5 1, hit 7 0]) ''tx.height>0''
        = Inr [hit 5 2, hit 5 1, hit 7 0]
   \<and> length [hit 5 2, hit 5 1, hit 7 0] < 2 ^ 63
   \<and> TxSearch (fixed_search [hit 5 2, hit 5 1, hit 7 0]) ''tx.height>0'' False None None ''asc''
        = Inr (Some \<lparr>Txs = map (toResultTx (\<lambda>tx. tx)) [hit 5 1, hit 5 2, hit 7 0],
                      TotalCount = 3\<rparr>, None)
   \<and> sorted_wrt by_height_index (map (toResultTx (\<lambda>tx. tx)) [hit 5 1, hit 5 2, hit 7 0])
   \<and> TxSearch (fixed_search [hit 5 2, hit 5 1, hit 7 0]) ''tx.height>0'' False None None ''desc''
        = Inr (Some \<lparr>Txs = map (toResultTx (\<lambda>tx. tx)) [hit 7 0, hit 5 2, hit 5 1],
                      TotalCount = 3\<rparr>, None)
   \<and> sorted_wrt (\<lambda>a b. by_height_index b a)
         (map (toResultTx (\<lambda>tx. tx)) [hit 7 0, hit 5 2, hit 5 1])
   \<and> TxSearch (fixed_search [hit 5 2, hit 5 1, hit 7 0]) ''tx.height>0'' False
         (Some 2) (Some 2) ''desc''
        = Inr (Some \<lparr>Txs = map (toResultTx (\<lambda>tx. tx)) [hit 5 1], TotalCount = 3\<rparr>, None)
   \<and> page_slice (Some 2) (Some 2)
         (sort_Slice (\<lambda>lt xs. xs) less_desc [hit 5 2, hit 5 1, hit 7 0]) = [hit 5 1]
   \<and> TxSearch (fixed_search [hit 5 2, hit 5 1, hit 7 0]) ''tx.height>0'' False None None ''foo''
        = Inr (None, Some ErrOrderBy)
   \<and> TxSearch (arranged_search (\<lambda>lt. rev) [(hit 5 1)\<lparr>Tx := [1]\<rparr>, (hit 5 1)\<lparr>Tx := [2]\<rparr>])
         ''tx.height>0'' False None None ''asc''
        = Inr (Some \<lparr>Txs = map (toResultTx (\<lambda>tx. tx))
                              [(hit 5 1)\<lparr>Tx := [2]\<rparr>, (hit 5 1)\<lparr>Tx := [1]\<rparr>],
                      TotalCount = 2\<rparr>, None)
   \<and> sorted_wrt by_height_index
         (map (toResultTx (\<lambda>tx. tx)) [(hit 5 1)\<lparr>Tx := [2]\<rparr>, (hit 5 1)\<lparr>Tx := [1]\<rparr>])"
proof -
  let ?hits = "[hit 5 2, hit 5 1, hit 7 0]"
  let ?node = "fixed_search ?hits"
  let ?asc = "\<lparr>Txs = map (toResultTx (\<lambda>tx. tx)) [hit 5 1, hit 5 2, hit 7 0], TotalCount = 3\<rparr>"
  let ?desc = "\<lparr>Txs = map (toResultTx (\<lambda>tx. tx)) [hit 7 0, hit 5 2, hit 5 1], TotalCount = 3\<rparr>"
  let ?desc2 = "\<lparr>Txs = map (toResultTx (\<lambda>tx. tx)) [hit 5 1], TotalCount = 3\<rparr>"
  let ?ties = "[(hit 5 1)\<lparr>Tx := [1]\<rparr>, (hit 5 1)\<lparr>Tx := [2]\<rparr>]"
  let ?tnode = "arranged_search (\<lambda>lt. rev) ?ties"
  let ?tres = "\<lparr>Txs = map (toResultTx (\<lambda>tx. tx))
                        [(hit 5 1)\<lparr>Tx := [2]\<rparr>, (hit 5 1)\<lparr>Tx := [1]\<rparr>],
                TotalCount = 2\<rparr>"
  have q: "tmquery_New ?node ''tx.height>0'' = Inr ''tx.height>0''"
    by (simp add: fixed_search_def arranged_search_def)
  have f: "TxIndexer_Search ?node ''tx.height>0'' = Inr ?hits"
    by (simp add: fixed_search_def arranged_search_def)
  have n: "length ?hits < 2 ^ 63" by simp
  have a: "TxSearch ?node ''tx.height>0'' False None None ''asc'' = Inr (Some ?asc, None)"
    by (simp add: eval_defs)
  have d: "TxSearch ?node ''tx.height>0'' False None None ''desc'' = Inr (Some ?desc, None)"
    by (simp add: eval_defs)
  have d2: "TxSearch ?node ''tx.height>0'' False (Some 2) (Some 2) ''desc''
      = Inr (Some ?desc2, None)"
    by (simp add: eval_defs)
  note t = TxSearch_sorted_before_pagination [OF q f n]
  have ta: "sorted_wrt by_height_index (Txs ?asc)"
    using t [of "''asc''" False None None ?asc] a by blast
  have td: "sorted_wrt (\<lambda>a b. by_height_index b a) (Txs ?desc)"
    using t [of "''desc''" False None None ?desc] d by blast
  have sl: "page_slice (Some 2) (Some 2) (sort_Slice (\<lambda>lt xs. xs) less_desc ?hits) = [hit 5 1]"
    by (simp add: page_slice_def eval_defs)
  have tf: "TxSearch ?node ''tx.height>0'' False None None ''foo'' = Inr (None, Some ErrOrderBy)"
    using t [of "''foo''" False None None ?asc] by simp
  have tq: "tmquery_New ?tnode ''tx.height>0'' = Inr ''tx.height>0''"
    by (simp add: arranged_search_def)
  have tfd: "TxIndexer_Search ?tnode ''tx.height>0'' = Inr ?ties"
    by (simp add: arranged_search_def)
  have tn: "length ?ties < 2 ^ 63" by simp
  have te: "TxSearch ?tnode ''tx.height>0'' False None None ''asc'' = Inr (Some ?tres, None)"
    by (simp add: eval_defs)
  have ts: "sorted_wrt by_height_index (Txs ?tres)"
    using TxSearch_sorted_before_pagination [OF tq tfd tn, of "''asc''" False None None ?tres] te
    by blast
  show ?thesis using q f n a d d2 ta td sl tf te ts by simp
qed

section \<open>Inclusion proofs of search results\<close>

text \<open>
  C10.  Every hit that \<open>TxSearch\<close> returns carries the zero-valued inclusion proof,
  whatever the value of the flag \<open>prove\<close>.
\<close>

theorem TxSearch_proof_empty:
  assumes "TxSearch node query prove pagePtr perPagePtr orderBy = Inr (Some res, None)"
  shows "\<forall>r\<in>set (Txs res). rtx_Proof r = zero_TxProof"
proof -
  obtain rs i stop where "TxSearch_loop (Tx_Hash node) rs i stop [] = Inr (Txs res)"
    using assms
    by (auto simp: TxSearch_def Let_def split: sum.splits option.splits if_splits prod.splits)
  then show ?thesis using TxSearch_loop_proofs [of "Tx_Hash node" rs i stop "[]" "Txs res"] by simp
qed

theorem TxSearch_proof_empty_witness:
  "TxSearch (fixed_search [hit 5 2, hit 5 1, hit 7 0]) ''tx.height>0'' True None (Some 2) ''asc''
     = Inr (Some \<lparr>Txs = map (toResultTx (\<lambda>tx. tx)) [hit 5 1, hit 5 2], TotalCount = 3\<rparr>, None)
   \<and> toResultTx (\<lambda>tx. tx) (hit 5 2)
        \<in> set (Txs \<lparr>Txs = map (toResultTx (\<lambda>tx. tx)) [hit 5 1, hit 5 2], TotalCount = 3\<rparr>)
   \<and> rtx_Proof (toResultTx (\<lambda>tx. tx) (hit 5 2)) = zero_TxProof"
proof -
  let ?res = "\<lparr>Txs = map (toResultTx (\<lambda>tx. tx)) [hit 5 1, hit 5 2], TotalCount = 3\<rparr>"
  have e: "TxSearch (fixed_search [hit 5 2, hit 5 1, hit 7 0]) ''tx.height>0'' True None (Some 2) ''asc''
      = Inr (Some ?res, None)"
    by (simp add: eval_defs)
  have m: "toResultTx (\<lambda>tx. tx) (hit 5 2) \<in> set (Txs ?res)" by simp
  have "rtx_Proof (toResultTx (\<lambda>tx. tx) (hit 5 2)) = zero_TxProof"
    using TxSearch_proof_empty [OF e] m by blast
  then show ?thesis using e m by blast
qed

section \<open>Validate-and-wait mode\<close>

text \<open>
  C7.  In \<open>BroadcastTxCommit\<close>, when the call is admitted, the subscription is
  established and the mempool's validation answers with a status other than OK, the call
  returns, without error, a result that holds the validation response, the zero inclusion
  result and height 0.  The calls made are the subscription, the validation and the
  deferred unsubscription only: no gossip is attempted and the subscription is released.
\<close>

theorem BroadcastTxCommit_validation_rejected:
  assumes a1: "NumClients env <s MaxSubscriptionClients env"
    and a2: "NumClientSubscriptions env '''' <s MaxSubscriptionsPerClient env"
    and s: "Subscribe_err env = None"
    and c: "CheckTx_res env = Inr r"
    and k: "chk_Code r \<noteq> CodeTypeOK"
  shows "fst (BroadcastTxCommit node env tx) =
           (Some \<lparr>btc_CheckTx = r, btc_DeliverTx = zero_ResponseDeliverTx,
                   btc_Hash = TxHash node tx, btc_Height = 0\<rparr>, None)
    \<and> snd (BroadcastTxCommit node env tx) =
           [EventBus_Subscribe '''' (EventQueryTxFor node tx) [], Mempool_CheckTx tx]
             @ deferred_Unsubscribe env '''' (EventQueryTxFor node tx)
    \<and> (\<forall>t. P2P_GossipTx t \<notin> set (snd (BroadcastTxCommit node env tx)))
    \<and> EventBus_Unsubscribe '''' (EventQueryTxFor node tx)
         \<in> set (snd (BroadcastTxCommit node env tx))"
proof -
  have b: "BroadcastTxCommit_subscribed node env tx =
      ((Some \<lparr>btc_CheckTx = r, btc_DeliverTx = zero_ResponseDeliverTx,
               btc_Hash = TxHash node tx, btc_Height = 0\<rparr>, None), [Mempool_CheckTx tx])"
    using c k by (simp add: BroadcastTxCommit_subscribed_def)
  show ?thesis
    using BroadcastTxCommit_admitted [OF a1 a2 s, of node tx] b
    by (simp add: Unsubscribe_in_deferred no_gossip_in_deferred)
qed

theorem BroadcastTxCommit_validation_rejected_witness:
  "NumClients (quiet_env\<lparr>CheckTx_res := Inr (response 1)\<rparr>)
     <s MaxSubscriptionClients (quiet_env\<lparr>CheckTx_res := Inr (response 1)\<rparr>)
   \<and> NumClientSubscriptions (quiet_env\<lparr>CheckTx_res := Inr (response 1)\<rparr>) ''''
     <s MaxSubscriptionsPerClient (quiet_env\<lparr>CheckTx_res := Inr (response 1)\<rparr>)
   \<and> Subscribe_err (quiet_env\<lparr>CheckTx_res := Inr (response 1)\<rparr>) = None
   \<and> CheckTx_res (quiet_env\<lparr>CheckTx_res := Inr (response 1)\<rparr>) = Inr (response 1)
   \<and> chk_Code (response 1) \<noteq> CodeTypeOK
   \<and> BroadcastTxCommit plain_node (quiet_env\<lparr>CheckTx_res := Inr (response 1)\<rparr>) [1, 2, 3]
       = ((Some \<lparr>btc_CheckTx = response 1, btc_DeliverTx = zero_ResponseDeliverTx,
                  btc_Hash = [1, 2, 3], btc_Height = 0\<rparr>, None),
          [EventBus_Subscribe '''' (EventQueryTx [1, 2, 3]) [], Mempool_CheckTx [1, 2, 3],
           EventBus_Unsubscribe '''' (EventQueryTx [1, 2, 3])])"
proof -
  let ?env = "quiet_env\<lparr>CheckTx_res := Inr (response 1)\<rparr>"
  have a1: "NumClients ?env <s MaxSubscriptionClients ?env"
    by (simp add: quiet_env_def word_sless_alt)
  have a2: "NumClientSubscriptions ?env '''' <s MaxSubscriptionsPerClient ?env"
    by (simp add: quiet_env_def word_sless_alt)
  have s: "Subscribe_err ?env = None" by (simp add: quiet_env_def)
  have c: "CheckTx_res ?env = Inr (response 1)" by simp
  have k: "chk_Code (response 1) \<noteq> CodeTypeOK" by (simp add: response_def CodeTypeOK_def)
  have u: "deferred_Unsubscribe ?env '''' (EventQueryTx [1, 2, 3])
      = ([EventBus_Unsubscribe '''' (EventQueryTx [1, 2, 3])] :: (query, bytes) call list)"
    by (simp add: deferred_Unsubscribe_def quiet_env_def)
  have "BroadcastTxCommit plain_node ?env [1, 2, 3]
       = ((Some \<lparr>btc_CheckTx = response 1, btc_DeliverTx = zero_ResponseDeliverTx,
                  btc_Hash = [1, 2, 3], btc_Height = 0\<rparr>, None),
          [EventBus_Subscribe '''' (EventQueryTx [1, 2, 3]) [], Mempool_CheckTx [1, 2, 3],
           EventBus_Unsubscribe '''' (EventQueryTx [1, 2, 3])])"
    using BroadcastTxCommit_validation_rejected [OF a1 a2 s c k, of plain_node "[1, 2, 3]"] u
    by (simp add: plain_node_def prod_eq_iff)
  then show ?thesis using a1 a2 s c k by blast
qed




section \<open>Validate-only mode\<close>

text \<open>
  C6.  In \<open>BroadcastTxSync\<close>, when the mempool's validation answers OK and the gossip
  fails, the call removes the transaction from the mempool by the key derived from its
  content, as its last call, after the failed gossip, and then returns the error (with a
  nil result).
\<close>

theorem BroadcastTxSync_gossip_failure:
  assumes c: "CheckTx_res env = Inr r"
    and k: "chk_Code r = CodeTypeOK"
    and g: "GossipTx_err env = Some err"
  shows "BroadcastTxSync node env tx =
           ((None, Some (ErrValidTra err)),
            [Mempool_CheckTx tx, P2P_GossipTx tx, Mempool_RemoveTxByKey (TxKey node tx) True])"
  using c k g by (simp add: BroadcastTxSync_def)

theorem BroadcastTxSync_gossip_failure_witness:
  "CheckTx_res (quiet_env\<lparr>GossipTx_err := Some (External ''no peers'')\<rparr>) = Inr (response 0)
   \<and> chk_Code (response 0) = CodeTypeOK
   \<and> GossipTx_err (quiet_env\<lparr>GossipTx_err := Some (External ''no peers'')\<rparr>)
       = Some (External ''no peers'')
   \<and> BroadcastTxSync plain_node
         (quiet_env\<lparr>GossipTx_err := Some (External ''no peers'')\<rparr>) [1, 2, 3]
       = ((None, Some (ErrValidTra (External ''no peers''))),
          [Mempool_CheckTx [1, 2, 3], P2P_GossipTx [1, 2, 3],
           Mempool_RemoveTxByKey [1, 2, 3] True])"
proof -
  let ?env = "quiet_env\<lparr>GossipTx_err := Some (External ''no peers'')\<rparr>"
  have c: "CheckTx_res ?env = Inr (response 0)" by (simp add: quiet_env_def)
  have k: "chk_Code (response 0) = CodeTypeOK" by (simp add: response_def CodeTypeOK_def)
  have g: "GossipTx_err ?env = Some (External ''no peers'')" by simp
  have "BroadcastTxSync plain_node ?env [1, 2, 3]
       = ((None, Some (ErrValidTra (External ''no peers''))),
          [Mempool_CheckTx [1, 2, 3], P2P_GossipTx [1, 2, 3],
           Mempool_RemoveTxByKey [1, 2, 3] True])"
    using BroadcastTxSync_gossip_failure [OF c k g, of plain_node "[1, 2, 3]"]
    by (simp add: plain_node_def)
  then show ?thesis using c k g by blast
qed

section \<open>Admission to the event bus\<close>

text \<open>
  C5.  What the code does where the specification asks for an admission error: with the
  number of clients of the event bus at the configured maximum, and a query that parses
  (\<^verbatim>\<open>tm.event='NewBlock'\<close>), \<open>Subscribe\<close> registers on the bus, starts its
  forwarding routine and returns a channel without error.  \<open>BroadcastTxCommit\<close>, in the
  same situation, returns the admission error before any call on the bus.
\<close>

theorem Subscribe_at_limit_registers:
  "MaxSubscriptionClients (quiet_env\<lparr>NumClients := 100\<rparr>)
     \<le>s NumClients (quiet_env\<lparr>NumClients := 100\<rparr>)
   \<and> ParseQuery plain_node EventQueryNewBlock = Inr (Parsed EventQueryNewBlock)
   \<and> Subscribe plain_node (quiet_env\<lparr>NumClients := 100\<rparr>) ''client-1'' EventQueryNewBlock []
       = (Inr (Some (Chan 1), None),
          [EventBus_Subscribe ''client-1'' (Parsed EventQueryNewBlock) [1],
           Go_eventsRoutine ''client-1'' (Parsed EventQueryNewBlock)])
   \<and> BroadcastTxCommit plain_node (quiet_env\<lparr>NumClients := 100\<rparr>) [1, 2, 3]
       = ((None, Some (ErrMaxSubscriptionClients 100)), [])"
  by (simp add: Subscribe_def BroadcastTxCommit_def quiet_env_def plain_node_def Let_def
      word_sle_eq word_sless_alt)

section \<open>Backoff of the resubscription\<close>

text \<open>
  C2.  What the code does where the specification asks for delays of 10, 20 and 40 milliseconds:
  when \<open>EventBus.Subscribe\<close> fails three times and then succeeds, \<open>resubscribe\<close> has
  slept 20, 40 and 80 milliseconds, because the counter is incremented before the shift.
  The delay before the k-th retry is \<open>10 * 2 ^ k\<close> milliseconds.
\<close>

theorem resubscribe_first_delays:
  "resubscribe [(True, Inl (External ''bus''))  , (True, Inl (External ''bus'')),
                (True, Inl (External ''bus'')), (True, Inr (7 :: nat))]
     = Some (Some 7, [20 * Millisecond, 40 * Millisecond, 80 * Millisecond])"
  by (simp add: resubscribe_def Let_def backoff_def)

section \<open>Lookup of an unregistered backend\<close>

text \<open>
  C4.  What the code does where the specification asks for an explicit not-found error: for the
  unregistered name \<open>celestia\<close>, \<open>GetClient\<close> returns nothing; it panics on the call
  of a nil function.
\<close>

theorem GetClient_unregistered_panics:
  "GetClient ''celestia'' = Inl PanicNilFunc"
  by (simp add: GetClient_def clients_def)

end
